theory Spec2Isabelle
  imports Main "HOL-Library.AList" "HOL-Library.Char_ord" "HOL-Library.List_Lexorder"
begin

section \<open>WLAN monitor: a model of wlan\_fin.py\<close>

text \<open>
  The program scans the neighbour table of the host at a fixed interval, compares the
  devices found with the set it saved after the previous scan, logs the differences and
  saves the new set. This theory embeds the functions of \<^verbatim>\<open>wlan_fin.py\<close> that
  parse, reconcile, persist and log, and proves properties of them.

  Python strings are modelled as \<^typ>\<open>string\<close>; the texts handled here (addresses, the
  output of \<^verbatim>\<open>arp -a\<close>, log lines) are read as ASCII.
\<close>

subsection \<open>String operations of Python used by the program\<close>

text \<open>\<^verbatim>\<open>s.split(c)\<close> for a one-character separator: always at least one part.\<close>

fun split :: "char \<Rightarrow> string \<Rightarrow> string list" where
  "split c [] = [[]]"
| "split c (x # xs) =
     (if x = c then [] # split c xs
      else (case split c xs of [] \<Rightarrow> [[x]] | p # ps \<Rightarrow> (x # p) # ps))"

text \<open>\<^verbatim>\<open>sep.join(parts)\<close>.\<close>

fun join :: "string \<Rightarrow> string list \<Rightarrow> string" where
  "join sep [] = []"
| "join sep [p] = p"
| "join sep (p # q # ps) = p @ sep @ join sep (q # ps)"

text \<open>\<^verbatim>\<open>s.startswith(p)\<close>.\<close>

fun startswith :: "string \<Rightarrow> string \<Rightarrow> bool" where
  "startswith s [] = True"
| "startswith [] (p # ps) = False"
| "startswith (x # xs) (p # ps) = (x = p \<and> startswith xs ps)"

text \<open>\<^verbatim>\<open>p in s\<close> for two strings: \<open>p\<close> occurs in \<open>s\<close> as a substring.\<close>

fun contains_str :: "string \<Rightarrow> string \<Rightarrow> bool" where
  "contains_str [] p = (p = [])"
| "contains_str (x # xs) p = (startswith (x # xs) p \<or> contains_str xs p)"

text \<open>\<^verbatim>\<open>s.upper()\<close> and \<^verbatim>\<open>s.replace(a, b)\<close> for single characters, on ASCII.\<close>

definition upper_char :: "char \<Rightarrow> char" where
  "upper_char c =
     (if CHR ''a'' \<le> c \<and> c \<le> CHR ''z'' then char_of (of_char c - (32::nat)) else c)"

definition upper :: "string \<Rightarrow> string" where
  "upper s = map upper_char s"

definition replace_char :: "char \<Rightarrow> char \<Rightarrow> string \<Rightarrow> string" where
  "replace_char a b s = map (\<lambda>c. if c = a then b else c) s"

subsection \<open>normalize\_subnet\<close>

text \<open>
  \<^verbatim>\<open>
  def normalize_subnet(subnet: Optional[str]) -> Optional[str]:
      if not subnet:
          return None
      if "/" in subnet:
          subnet = subnet.split("/")[0]
      parts = subnet.split(".")
      if len(parts) >= 3:
          return ".".join(parts[:3])
      elif len(parts) == 1:
          return subnet
      return None
  \<close>
  \<open>cidr_stripped\<close> is the value of \<^verbatim>\<open>subnet\<close> after the second \<^verbatim>\<open>if\<close>.
\<close>

definition cidr_stripped :: "string \<Rightarrow> string" where
  "cidr_stripped subnet =
     (if CHR ''/'' \<in> set subnet then hd (split (CHR ''/'') subnet) else subnet)"

definition normalize_subnet :: "string option \<Rightarrow> string option" where
  "normalize_subnet subnet_opt =
     (case subnet_opt of
        None \<Rightarrow> None
      | Some subnet0 \<Rightarrow>
          if subnet0 = [] then None
          else
            let subnet = cidr_stripped subnet0;
                parts = split (CHR ''.'') subnet
            in if length parts \<ge> 3 then Some (join ''.'' (take 3 parts))
               else if length parts = 1 then Some subnet
               else None)"

lemma split_nonempty: "split c s \<noteq> []"
  by (induction s) (auto split: list.splits)

lemma hd_split_no_sep: "c \<notin> set (hd (split c s))"
  by (induction s) (auto split: list.splits simp: split_nonempty)

lemma split_no_sep: "c \<notin> set s \<Longrightarrow> split c s = [s]"
  by (induction s) (auto split: list.splits)


subsection \<open>Python values, the clock, files, and the world around the program\<close>

text \<open>
  The values \<^verbatim>\<open>json.load\<close> returns and the dictionaries the program builds: a
  dictionary is the list of its items in insertion order. JSON numbers are left out:
  no file this program writes holds one.
\<close>

datatype pyval =
    PNone
  | PBool bool
  | PStr string
  | PList "pyval list"
  | PDict "(pyval \<times> pyval) list"

type_synonym pydict = "(pyval \<times> pyval) list"

text \<open>Truth value of an object (\<^verbatim>\<open>if x:\<close>) and whether it can be a dictionary key.\<close>

fun truthy :: "pyval \<Rightarrow> bool" where
  "truthy PNone = False"
| "truthy (PBool b) = b"
| "truthy (PStr s) = (s \<noteq> [])"
| "truthy (PList xs) = (xs \<noteq> [])"
| "truthy (PDict d) = (d \<noteq> [])"

fun hashable :: "pyval \<Rightarrow> bool" where
  "hashable (PList xs) = False"
| "hashable (PDict d) = False"
| "hashable v = True"

text \<open>
  One reading of \<^verbatim>\<open>datetime.now()\<close>, given by what the program takes from it:
  \<^verbatim>\<open>isoformat()\<close>, \<^verbatim>\<open>strftime("%Y-%m-%d %H:%M:%S")\<close>,
  \<^verbatim>\<open>strftime("%Y%m%d_%H%M%S")\<close> and \<^verbatim>\<open>hour\<close>.
\<close>

record datetime =
  iso :: string
  stamp :: string
  file_stamp :: string
  hour :: nat

text \<open>
  A \<^verbatim>\<open>pathlib.Path\<close> as its directory and its final component. \<open>suffix\<close> and
  \<open>stem\<close> follow pathlib: the suffix starts at the last dot of the name, unless that dot is
  the first or the last character of the name.
\<close>

datatype path = Path (parent: string) (name: string)

definition suffix :: "string \<Rightarrow> string" where
  "suffix nm =
     (if CHR ''.'' \<in> set nm then
        let i = length nm - Suc (length (takeWhile (\<lambda>c. c \<noteq> CHR ''.'') (rev nm)))
        in if 0 < i \<and> i + 1 < length nm then drop i nm else []
      else [])"

definition stem :: "string \<Rightarrow> string" where
  "stem nm =
     (if CHR ''.'' \<in> set nm then
        let i = length nm - Suc (length (takeWhile (\<lambda>c. c \<noteq> CHR ''.'') (rev nm)))
        in if 0 < i \<and> i + 1 < length nm then take i nm else nm
      else nm)"

text \<open>\<^verbatim>\<open>p.with_suffix(s)\<close>: \<open>None\<close> stands for the ValueError on an empty name.\<close>

definition with_suffix :: "path \<Rightarrow> string \<Rightarrow> path option" where
  "with_suffix p s = (if name p = [] then None else Some (Path (parent p) (stem (name p) @ s)))"

text \<open>
  What a run meets from outside, fixed for the run: the clock, the failures of the file
  system, the output of \<^verbatim>\<open>arp -a\<close> (\<open>None\<close> when the call raises), interrupts, and
  the library functions the program calls: \<^verbatim>\<open>json.load\<close> (\<open>None\<close> when it raises),
  \<^verbatim>\<open>json.dump\<close> (the text produced, and whether it was produced to the end), the order
  in which a set with the given members is iterated, \<^verbatim>\<open>str()\<close> of a value that is
  not a string, and the longest sleep, in seconds, that \<^verbatim>\<open>time.sleep\<close> accepts
  (9223372036 where the length is kept as a 64-bit count of nanoseconds). The clock is
  indexed by the number of readings taken so far, the file system, \<^verbatim>\<open>arp -a\<close> and the
  interrupts by the number of calls made out of the process so far.
\<close>

datatype fault = Refused | Truncated nat

record env =
  clock :: "nat \<Rightarrow> datetime"
  io_fault :: "nat \<Rightarrow> fault option"
  arp_output :: "nat \<Rightarrow> string option"
  interrupt :: "nat \<Rightarrow> bool"
  json_load :: "string \<Rightarrow> pyval option"
  json_dump :: "pyval \<Rightarrow> bool \<times> string"
  set_order :: "pyval list \<Rightarrow> pyval list"
  py_str :: "pyval \<Rightarrow> string"
  sleep_limit :: int

text \<open>
  The state outside the program's variables: the files, the messages handed to
  \<^verbatim>\<open>write_to_database\<close> in the order of the calls, and the two counters. Console
  output is not modelled.
\<close>

record world =
  files :: "path \<Rightarrow> string option"
  sink :: "string list"
  ticks :: nat
  ops :: nat

text \<open>The entries of \<^verbatim>\<open>CONFIG\<close> and the arguments of \<^verbatim>\<open>run_monitor\<close> that the model uses.\<close>

record config =
  scan_interval :: int
  max_log_size_kb :: nat
  state_path :: path
  log_path :: path
  once :: bool

definition now :: "env \<Rightarrow> world \<Rightarrow> datetime \<times> world" where
  "now e w = (clock e (ticks w), w\<lparr>ticks := Suc (ticks w)\<rparr>)"

definition count_op :: "world \<Rightarrow> world" where
  "count_op w = w\<lparr>ops := Suc (ops w)\<rparr>"

text \<open>
  \<^verbatim>\<open>write_to_database(message)\<close>: the caller never looks at the result, and no failure
  of the database reaches the caller.
\<close>

definition write_to_database :: "string \<Rightarrow> world \<Rightarrow> world" where
  "write_to_database message w = w\<lparr>sink := sink w @ [message]\<rparr>"

text \<open>
  File operations. Each is one call out of the process and may fail: \<open>Refused\<close> fails
  before anything changes, \<open>Truncated n\<close> fails after \<open>n\<close> characters have reached the
  file. The boolean result is False when the operation raises.
  \<^item> \<open>read_text\<close>: \<^verbatim>\<open>open(p)\<close> and reading all of it;
  \<^item> \<open>write_text\<close>: \<^verbatim>\<open>open(p, "w")\<close>, writing, closing;
  \<^item> \<open>append_text\<close>: \<^verbatim>\<open>open(p, "a")\<close>, writing, closing;
  \<^item> \<open>rename\<close>: \<^verbatim>\<open>Path.rename\<close> and \<^verbatim>\<open>Path.replace\<close>, one atomic step, which replaces
    a file at the target; where the system refuses an existing target, that is the fault
    \<open>Refused\<close>.
  The text of a file is the sequence of characters written to it, and its size is their
  number.
\<close>

definition read_text :: "env \<Rightarrow> path \<Rightarrow> world \<Rightarrow> string option \<times> world" where
  "read_text e p w =
     (case io_fault e (ops w) of
        None \<Rightarrow> (files w p, count_op w)
      | Some f \<Rightarrow> (None, count_op w))"

definition write_text :: "env \<Rightarrow> path \<Rightarrow> string \<Rightarrow> world \<Rightarrow> bool \<times> world" where
  "write_text e p s w =
     (case io_fault e (ops w) of
        None \<Rightarrow> (True, count_op (w\<lparr>files := (files w)(p \<mapsto> s)\<rparr>))
      | Some Refused \<Rightarrow> (False, count_op w)
      | Some (Truncated n) \<Rightarrow> (False, count_op (w\<lparr>files := (files w)(p \<mapsto> take n s)\<rparr>)))"

definition append_text :: "env \<Rightarrow> path \<Rightarrow> string \<Rightarrow> world \<Rightarrow> bool \<times> world" where
  "append_text e p s w =
     (let old = (case files w p of None \<Rightarrow> [] | Some t \<Rightarrow> t)
      in case io_fault e (ops w) of
           None \<Rightarrow> (True, count_op (w\<lparr>files := (files w)(p \<mapsto> old @ s)\<rparr>))
         | Some Refused \<Rightarrow> (False, count_op w)
         | Some (Truncated n) \<Rightarrow>
             (False, count_op (w\<lparr>files := (files w)(p \<mapsto> old @ take n s)\<rparr>)))"

definition rename :: "env \<Rightarrow> path \<Rightarrow> path \<Rightarrow> world \<Rightarrow> bool \<times> world" where
  "rename e src dst w =
     (case (io_fault e (ops w), files w src) of
        (None, Some s) \<Rightarrow> (True, count_op (w\<lparr>files := (files w)(src := None, dst \<mapsto> s)\<rparr>))
      | _ \<Rightarrow> (False, count_op w))"

subsection \<open>scan\_arp\_table\<close>

text \<open>
  The pattern of \<^verbatim>\<open>scan_arp_table\<close>,
  \<^verbatim>\<open>(\d{1,3}\.\d{1,3}\.\d{1,3}\.\d{1,3})\s+([0-9a-fA-F\-:]{17})\s+\<close>,
  is a sequence of character classes, each with a repetition count. An item
  \<open>(cls, lo, hi)\<close> matches between \<open>lo\<close> and \<open>hi\<close> characters of the class (\<open>None\<close>: no
  upper bound), as many as possible first. \<open>match_here\<close> is the backtracking match of
  \<^verbatim>\<open>re\<close> at the start of a text: the pieces matched by the items, or \<open>None\<close>.
\<close>

type_synonym item = "(char \<Rightarrow> bool) \<times> nat \<times> nat option"

fun try_lens :: "(string \<Rightarrow> string list option) \<Rightarrow> string \<Rightarrow> nat \<Rightarrow> nat \<Rightarrow> string list option" where
  "try_lens k s lo n =
     (if n < lo then None
      else (case k (drop n s) of
              Some ps \<Rightarrow> Some (take n s # ps)
            | None \<Rightarrow> (case n of 0 \<Rightarrow> None | Suc m \<Rightarrow> try_lens k s lo m)))"

definition match_item :: "item \<Rightarrow> (string \<Rightarrow> string list option) \<Rightarrow> string \<Rightarrow> string list option" where
  "match_item it k s =
     (case it of (cls, lo, hi) \<Rightarrow>
        let run = length (takeWhile cls s);
            n = (case hi of None \<Rightarrow> run | Some h \<Rightarrow> min h run)
        in try_lens k s lo n)"

primrec match_here :: "item list \<Rightarrow> string \<Rightarrow> string list option" where
  "match_here [] = (\<lambda>s. Some [])"
| "match_here (it # its) = match_item it (match_here its)"

definition is_digit :: "char \<Rightarrow> bool" where
  "is_digit c = (CHR ''0'' \<le> c \<and> c \<le> CHR ''9'')"

definition is_space :: "char \<Rightarrow> bool" where
  "is_space c =
     (c = CHR '' '' \<or> (CHR 0x09 \<le> c \<and> c \<le> CHR 0x0D) \<or> (CHR 0x1C \<le> c \<and> c \<le> CHR 0x1F))"

definition is_mac_char :: "char \<Rightarrow> bool" where
  "is_mac_char c =
     (is_digit c \<or> (CHR ''a'' \<le> c \<and> c \<le> CHR ''f'') \<or> (CHR ''A'' \<le> c \<and> c \<le> CHR ''F'')
      \<or> c = CHR ''-'' \<or> c = CHR '':'')"

definition arp_pattern :: "item list" where
  "arp_pattern =
     [(is_digit, 1, Some 3), ((\<lambda>c. c = CHR ''.''), 1, Some 1),
      (is_digit, 1, Some 3), ((\<lambda>c. c = CHR ''.''), 1, Some 1),
      (is_digit, 1, Some 3), ((\<lambda>c. c = CHR ''.''), 1, Some 1),
      (is_digit, 1, Some 3),
      (is_space, 1, None),
      (is_mac_char, 17, Some 17),
      (is_space, 1, None)]"

text \<open>
  \<^verbatim>\<open>re.finditer(pattern, output)\<close>: the matches from left to right, each search
  starting where the previous match ended. A match is the list of its ten pieces;
  group 1 is the first seven joined, group 2 is the ninth.
\<close>

fun finditer :: "string \<Rightarrow> string list list" where
  "finditer [] = []"
| "finditer (x # xs) =
     (case match_here arp_pattern (x # xs) of
        None \<Rightarrow> finditer xs
      | Some ps \<Rightarrow> ps # finditer (drop (length (concat ps) - 1) xs))"

definition group1 :: "string list \<Rightarrow> string" where
  "group1 ps = concat (take 7 ps)"

definition group2 :: "string list \<Rightarrow> string" where
  "group2 ps = concat (take 1 (drop 8 ps))"

text \<open>
  \<^verbatim>\<open>
  for match in re.finditer(pattern, output):
      ip = match.group(1)
      mac_raw = match.group(2).upper().replace("-", ":")
      if mac_raw != "FF:FF:FF:FF:FF:FF" and not mac_raw.startswith("FF:"):
          mac = mac_raw if len(mac_raw) == 17 else "UNKNOWN"
          devices[ip] = {"mac": mac, "last_seen": datetime.now().isoformat()}
  \<close>
  \<open>arp_entries\<close> are the pairs \<^verbatim>\<open>(ip, mac_raw)\<close> of the loop, in order.
\<close>

definition arp_entries :: "string \<Rightarrow> (string \<times> string) list" where
  "arp_entries output =
     map (\<lambda>ps. (group1 ps, replace_char (CHR ''-'') (CHR '':'') (upper (group2 ps))))
       (finditer output)"

definition device :: "string \<Rightarrow> string \<Rightarrow> pyval" where
  "device mac seen = PDict [(PStr ''mac'', PStr mac), (PStr ''last_seen'', PStr seen)]"

fun scan_entries :: "env \<Rightarrow> (string \<times> string) list \<Rightarrow> pydict \<Rightarrow> world \<Rightarrow> pydict \<times> world" where
  "scan_entries e [] devices w = (devices, w)"
| "scan_entries e ((ip, mac_raw) # rest) devices w =
     (if mac_raw \<noteq> ''FF:FF:FF:FF:FF:FF'' \<and> \<not> startswith mac_raw ''FF:'' then
        let mac = (if length mac_raw = 17 then mac_raw else ''UNKNOWN'');
            (t, w1) = now e w
        in scan_entries e rest (AList.update (PStr ip) (device mac (iso t)) devices) w1
      else scan_entries e rest devices w)"

text \<open>
  \<^verbatim>\<open>scan_arp_table()\<close>: the call of \<^verbatim>\<open>arp -a\<close> is one call out of the process; when
  it raises, the result is the empty dictionary.
\<close>

definition scan_arp_table :: "env \<Rightarrow> world \<Rightarrow> pydict \<times> world" where
  "scan_arp_table e w =
     (case arp_output e (ops w) of
        None \<Rightarrow> ([], count_op w)
      | Some output \<Rightarrow> scan_entries e (arp_entries output) [] (count_op w))"

text \<open>
  \<^verbatim>\<open>discover_devices(subnet_base)\<close> pings the addresses of the subnet, waits, and
  returns \<^verbatim>\<open>scan_arp_table()\<close>. The pings act on the neighbour table of the host only,
  which the model meets as the output of \<^verbatim>\<open>arp -a\<close>.
\<close>

definition discover_devices :: "env \<Rightarrow> world \<Rightarrow> pydict \<times> world" where
  "discover_devices e w = scan_arp_table e w"


subsection \<open>load\_state and save\_state\<close>

text \<open>
  \<^verbatim>\<open>x in data\<close> and \<^verbatim>\<open>data[x]\<close> for a string \<open>x\<close>; \<open>None\<close> stands for the
  TypeError that the operation raises on a value of the wrong type, or the KeyError.
\<close>

fun py_contains :: "string \<Rightarrow> pyval \<Rightarrow> bool option" where
  "py_contains x (PDict d) = Some (PStr x \<in> fst ` set d)"
| "py_contains x (PList xs) = Some (PStr x \<in> set xs)"
| "py_contains x (PStr s) = Some (contains_str s x)"
| "py_contains x PNone = None"
| "py_contains x (PBool b) = None"

fun py_subscript :: "pyval \<Rightarrow> string \<Rightarrow> pyval option" where
  "py_subscript (PDict d) x = map_of d (PStr x)"
| "py_subscript v x = None"

text \<open>\<^verbatim>\<open>d.get(x, default)\<close> on a dictionary.\<close>

definition dict_get :: "pydict \<Rightarrow> pyval \<Rightarrow> pyval \<Rightarrow> pyval" where
  "dict_get d x dflt = (case map_of d x of None \<Rightarrow> dflt | Some v \<Rightarrow> v)"

definition empty_state :: pyval where
  "empty_state = PDict [(PStr ''devices'', PDict []), (PStr ''last_scan'', PNone)]"

text \<open>
  The migration loop of \<^verbatim>\<open>load_state\<close>; \<open>None\<close> when it raises (an entry that is not
  a dictionary, an address that cannot be a key).
  \<^verbatim>\<open>
  new_devices = {}
  for mac, info in devices.items():
      ip = info.get("ip")
      if ip:
          new_devices[ip] = {"mac": mac,
                             "last_seen": info.get("last_seen", datetime.now().isoformat())}
  \<close>
\<close>

fun migrate :: "env \<Rightarrow> pydict \<Rightarrow> pydict \<Rightarrow> world \<Rightarrow> pydict option \<times> world" where
  "migrate e [] new_devices w = (Some new_devices, w)"
| "migrate e ((mac, info) # rest) new_devices w =
     (case info of
        PDict flds \<Rightarrow>
          let ip = dict_get flds (PStr ''ip'') PNone
          in if truthy ip then
               let (t, w1) = now e w;
                   entry = PDict [(PStr ''mac'', mac),
                                  (PStr ''last_seen'', dict_get flds (PStr ''last_seen'') (PStr (iso t)))]
               in if hashable ip then migrate e rest (AList.update ip entry new_devices) w1
                  else (None, w1)
             else migrate e rest new_devices w
      | _ \<Rightarrow> (None, w))"

text \<open>
  \<^verbatim>\<open>
  def load_state(path: Path) -> Dict:
      try:
          if path.exists():
              with open(path, encoding="utf-8") as f:
                  data = json.load(f)
                  if "devices" in data:
                      devices = data["devices"]
                      if devices and isinstance(list(devices.values())[0], dict) \
                              and "ip" in list(devices.values())[0]:
                          ... the migration loop ...
                          data["devices"] = new_devices
                  return data
      except Exception:
          pass
      return {"devices": {}, "last_scan": None}
  \<close>
  \<open>legacy_shape\<close> is the test of the inner \<^verbatim>\<open>if\<close> on a non-empty dictionary: it looks
  at the first value only.
\<close>

definition legacy_shape :: "pydict \<Rightarrow> bool" where
  "legacy_shape ds =
     (case ds of
        [] \<Rightarrow> False
      | (k, PDict flds) # rest \<Rightarrow> PStr ''ip'' \<in> fst ` set flds
      | (k, v) # rest \<Rightarrow> False)"

definition load_data :: "env \<Rightarrow> pyval \<Rightarrow> world \<Rightarrow> pyval \<times> world" where
  "load_data e data w =
     (case py_contains ''devices'' data of
        None \<Rightarrow> (empty_state, w)
      | Some False \<Rightarrow> (data, w)
      | Some True \<Rightarrow>
          (case py_subscript data ''devices'' of
             None \<Rightarrow> (empty_state, w)
           | Some devices \<Rightarrow>
               if \<not> truthy devices then (data, w)
               else (case devices of
                       PDict ds \<Rightarrow>
                         if legacy_shape ds then
                           (case migrate e ds [] w of
                              (None, w1) \<Rightarrow> (empty_state, w1)
                            | (Some new_devices, w1) \<Rightarrow>
                                (case data of
                                   PDict d \<Rightarrow>
                                     (PDict (AList.update (PStr ''devices'') (PDict new_devices) d), w1)
                                 | _ \<Rightarrow> (empty_state, w1)))
                         else (data, w)
                     | _ \<Rightarrow> (empty_state, w))))"

definition load_state :: "env \<Rightarrow> path \<Rightarrow> world \<Rightarrow> pyval \<times> world" where
  "load_state e p w =
     (if files w p = None then (empty_state, w)
      else (case read_text e p w of
              (None, w1) \<Rightarrow> (empty_state, w1)
            | (Some text, w1) \<Rightarrow>
                (case json_load e text of
                   None \<Rightarrow> (empty_state, w1)
                 | Some data \<Rightarrow> load_data e data w1)))"

text \<open>
  \<^verbatim>\<open>
  def save_state(path: Path, devices: Dict) -> bool:
      try:
          data = {"devices": devices, "last_scan": datetime.now().isoformat()}
          temp_path = path.with_suffix(path.suffix + ".tmp")
          with open(temp_path, "w", encoding="utf-8") as f:
              json.dump(data, f, indent=2, ensure_ascii=False)
          temp_path.replace(path)
          return True
      except Exception:
          return False
  \<close>
\<close>

definition snapshot :: "pyval \<Rightarrow> datetime \<Rightarrow> pyval" where
  "snapshot devices t = PDict [(PStr ''devices'', devices), (PStr ''last_scan'', PStr (iso t))]"

definition save_state :: "env \<Rightarrow> path \<Rightarrow> pyval \<Rightarrow> world \<Rightarrow> bool \<times> world" where
  "save_state e p devices w =
     (let (t, w1) = now e w;
          data = snapshot devices t
      in case with_suffix p (suffix (name p) @ ''.tmp'') of
           None \<Rightarrow> (False, w1)
         | Some temp_path \<Rightarrow>
             let (complete, text) = json_dump e data;
                 (written, w2) = write_text e temp_path text w1
             in if written \<and> complete then rename e temp_path p w2
                else (False, w2))"

subsection \<open>rotate\_log\_file and append\_log\<close>

text \<open>
  \<^verbatim>\<open>
  def rotate_log_file(log_path: Path) -> None:
      try:
          if not log_path.exists():
              return
          max_size_bytes = CONFIG["max_log_size_kb"] * 1024
          current_size = log_path.stat().st_size
          if current_size >= max_size_bytes:
              timestamp = datetime.now().strftime("%Y%m%d_%H%M%S")
              backup_path = log_path.parent / f"{log_path.stem}_{timestamp}{log_path.suffix}"
              if log_path.exists():
                  log_path.rename(backup_path)
      except Exception:
          pass
  \<close>
  The size of a file is the length of its text.
\<close>

definition backup_path :: "path \<Rightarrow> datetime \<Rightarrow> path" where
  "backup_path lp t = Path (parent lp) (stem (name lp) @ ''_'' @ file_stamp t @ suffix (name lp))"

definition rotate_log_file :: "env \<Rightarrow> config \<Rightarrow> path \<Rightarrow> world \<Rightarrow> world" where
  "rotate_log_file e cfg lp w =
     (case files w lp of
        None \<Rightarrow> w
      | Some content \<Rightarrow>
          let max_size_bytes = max_log_size_kb cfg * 1024;
              current_size = length content
          in if current_size \<ge> max_size_bytes then
               let (t, w1) = now e w
               in snd (rename e lp (backup_path lp t) w1)
             else w)"

text \<open>
  \<^verbatim>\<open>
  def append_log(log_path: Path, event: str, ip: str, mac: Optional[str] = None):
      try:
          rotate_log_file(log_path)
          timestamp = datetime.now().strftime("%Y-%m-%d %H:%M:%S")
          mac_str = mac if mac and mac != "UNKNOWN" else "UNKNOWN"
          line = f"[{timestamp}] {event}: IP={ip} MAC={mac_str}\n"
          try:
              with open(log_path, "a", encoding="utf-8") as f:
                  f.write(line)
          except Exception:
              pass
          event_type = "anmeldung" if event == "VERBUNDEN" else "abmeldung"
          if mac_str != "UNKNOWN":
              db_message = f"IP={ip} MAC={mac_str} {event_type} [{timestamp}]"
          else:
              db_message = f"IP={ip} {event_type} [{timestamp}]"
          write_to_database(db_message)
          ... console output ...
      except Exception:
          pass
  \<close>
  \<open>fmt\<close> is the text an f-string puts for a value.
\<close>

definition fmt :: "env \<Rightarrow> pyval \<Rightarrow> string" where
  "fmt e v = (case v of PStr s \<Rightarrow> s | _ \<Rightarrow> py_str e v)"

definition mac_str_of :: "pyval \<Rightarrow> pyval" where
  "mac_str_of mac = (if truthy mac \<and> mac \<noteq> PStr ''UNKNOWN'' then mac else PStr ''UNKNOWN'')"

definition log_line :: "env \<Rightarrow> datetime \<Rightarrow> string \<Rightarrow> pyval \<Rightarrow> pyval \<Rightarrow> string" where
  "log_line e t event ip mac =
     ''['' @ stamp t @ ''] '' @ event @ '': IP='' @ fmt e ip @ '' MAC='' @ fmt e (mac_str_of mac)
       @ [CHR 0x0A]"

definition db_message :: "env \<Rightarrow> datetime \<Rightarrow> string \<Rightarrow> pyval \<Rightarrow> pyval \<Rightarrow> string" where
  "db_message e t event ip mac =
     (let event_type = (if event = ''VERBUNDEN'' then ''anmeldung'' else ''abmeldung'')
      in if mac_str_of mac \<noteq> PStr ''UNKNOWN''
         then ''IP='' @ fmt e ip @ '' MAC='' @ fmt e (mac_str_of mac) @ '' '' @ event_type
                @ '' ['' @ stamp t @ '']''
         else ''IP='' @ fmt e ip @ '' '' @ event_type @ '' ['' @ stamp t @ '']'')"

definition append_log :: "env \<Rightarrow> config \<Rightarrow> path \<Rightarrow> string \<Rightarrow> pyval \<Rightarrow> pyval \<Rightarrow> world \<Rightarrow> world" where
  "append_log e cfg lp event ip mac w =
     (let w1 = rotate_log_file e cfg lp w;
          (t, w2) = now e w1;
          w3 = snd (append_text e lp (log_line e t event ip mac) w2)
      in write_to_database (db_message e t event ip mac) w3)"


subsection \<open>run\_monitor: reconciliation\<close>

text \<open>
  \<^verbatim>\<open>
  prev_devices = previous.get("devices", {})
  prev_ips = set(prev_devices.keys())
  curr_ips = set(current.keys())
  for ip in curr_ips - prev_ips:
      device_info = current.get(ip, {})
      mac = device_info.get("mac", "UNKNOWN")
      append_log(log_path, "VERBUNDEN", ip, mac)
  for ip in prev_ips - curr_ips:
      device_info = prev_devices.get(ip, {})
      mac = device_info.get("mac", "UNKNOWN")
      append_log(log_path, "GETRENNT", ip, mac)
  \<close>
  A Python set has no order of its own: the members of \<^verbatim>\<open>a - b\<close> are visited in the
  order \<open>set_order\<close> gives them. Each turn of a loop is a call of \<^verbatim>\<open>append_log\<close> or,
  where \<^verbatim>\<open>device_info\<close> is not a dictionary, the AttributeError of \<^verbatim>\<open>.get\<close>.
\<close>

definition set_diff :: "pyval list \<Rightarrow> pyval list \<Rightarrow> pyval list" where
  "set_diff a b = filter (\<lambda>k. k \<notin> set b) (remdups a)"

definition joined_ips :: "env \<Rightarrow> pydict \<Rightarrow> pydict \<Rightarrow> pyval list" where
  "joined_ips e current prev_devices = set_order e (set_diff (map fst current) (map fst prev_devices))"

definition left_ips :: "env \<Rightarrow> pydict \<Rightarrow> pydict \<Rightarrow> pyval list" where
  "left_ips e current prev_devices = set_order e (set_diff (map fst prev_devices) (map fst current))"

datatype step = Call string pyval pyval | Raise

definition log_step :: "pydict \<Rightarrow> string \<Rightarrow> pyval \<Rightarrow> step" where
  "log_step d event ip =
     (case dict_get d ip (PDict []) of
        PDict device_info \<Rightarrow> Call event ip (dict_get device_info (PStr ''mac'') (PStr ''UNKNOWN''))
      | _ \<Rightarrow> Raise)"

definition events :: "env \<Rightarrow> pydict \<Rightarrow> pydict \<Rightarrow> step list" where
  "events e current prev_devices =
     map (log_step current ''VERBUNDEN'') (joined_ips e current prev_devices)
     @ map (log_step prev_devices ''GETRENNT'') (left_ips e current prev_devices)"

text \<open>The steps are run in order up to the first that raises; the result is False then.\<close>

fun run_steps :: "env \<Rightarrow> config \<Rightarrow> step list \<Rightarrow> world \<Rightarrow> bool \<times> world" where
  "run_steps e cfg [] w = (True, w)"
| "run_steps e cfg (Raise # rest) w = (False, w)"
| "run_steps e cfg (Call event ip mac # rest) w =
     run_steps e cfg rest (append_log e cfg (log_path cfg) event ip mac w)"

definition reconcile :: "env \<Rightarrow> config \<Rightarrow> pydict \<Rightarrow> pyval \<Rightarrow> world \<Rightarrow> bool \<times> world" where
  "reconcile e cfg current previous w =
     (case previous of
        PDict snap \<Rightarrow>
          (case dict_get snap (PStr ''devices'') (PDict []) of
             PDict prev_devices \<Rightarrow> run_steps e cfg (events e current prev_devices) w
           | _ \<Rightarrow> (False, w))
      | _ \<Rightarrow> (False, w))"

subsection \<open>run\_monitor: the loop\<close>

text \<open>
  The variables of the loop, and how one turn of it ends: the loop goes on, it ends in
  an orderly way (\<^verbatim>\<open>break\<close>), or an interrupt arrives inside the exception handler
  and leaves the program.
\<close>

record loop_state =
  scan_count :: nat
  consecutive_errors :: nat
  last_heartbeat_hour :: nat



definition warning_message :: "datetime \<Rightarrow> string" where
  "warning_message t =
     ''Warnung: 10 aufeinanderfolgende Fehler beim Speichern ['' @ stamp t @ '']''"





text \<open>
  The state in which the loop is entered:
  \<^verbatim>\<open>
  write_to_database(f"gestartet [{timestamp}]")
  last_heartbeat_hour = datetime.now().hour
  scan_count = 0
  consecutive_errors = 0
  \<close>
\<close>

definition startup :: "env \<Rightarrow> world \<Rightarrow> loop_state \<times> world" where
  "startup e w =
     (let (t, w1) = now e w;
          w2 = write_to_database (''gestartet ['' @ stamp t @ '']'') w1;
          (t2, w3) = now e w2
      in (\<lparr>scan_count = 0, consecutive_errors = 0, last_heartbeat_hour = hour t2\<rparr>, w3))"


text \<open>The warnings among the messages handed to the database so far.\<close>

definition warnings :: "world \<Rightarrow> nat" where
  "warnings w = length (filter (\<lambda>m. startswith m ''Warnung:'') (sink w))"

section \<open>Properties\<close>

subsection \<open>normalize\_subnet\<close>

lemma hd_split_takeWhile: "hd (split c s) = takeWhile (\<lambda>x. x \<noteq> c) s"
  by (induction s) (auto split: list.splits simp: split_nonempty)

lemma takeWhile_no_sep: "c \<notin> set s \<Longrightarrow> takeWhile (\<lambda>x. x \<noteq> c) s = s"
  by (induction s) auto

lemma cidr_stripped_takeWhile: "cidr_stripped s = takeWhile (\<lambda>x. x \<noteq> CHR ''/'') s"
  by (simp add: cidr_stripped_def hd_split_takeWhile takeWhile_no_sep)

text \<open>
  Claim C10, as the code has it. For a non-empty input, \<open>cidr_stripped\<close> is the input up
  to its first \<open>/\<close> (the whole input when it has none), and the result depends on the
  number of dot-separated parts of that: None for two parts, the stripped input itself
  for one part, the first three parts joined by dots for three or more.
\<close>

theorem normalize_subnet_by_parts:
  assumes "subnet \<noteq> []"
  shows "cidr_stripped subnet = takeWhile (\<lambda>c. c \<noteq> CHR ''/'') subnet
    \<and> (length (split (CHR ''.'') (cidr_stripped subnet)) = 2
           \<longrightarrow> normalize_subnet (Some subnet) = None)
    \<and> (length (split (CHR ''.'') (cidr_stripped subnet)) = 1
           \<longrightarrow> normalize_subnet (Some subnet) = Some (cidr_stripped subnet))
    \<and> (length (split (CHR ''.'') (cidr_stripped subnet)) \<ge> 3
           \<longrightarrow> normalize_subnet (Some subnet)
               = Some (join ''.'' (take 3 (split (CHR ''.'') (cidr_stripped subnet)))))"
  using assms by (simp add: normalize_subnet_def cidr_stripped_takeWhile Let_def)

theorem normalize_subnet_by_parts_witness:
  "''192.168.178.0/24'' \<noteq> [] \<and> normalize_subnet (Some ''192.168.178.0/24'') = Some ''192.168.178''
   \<and> normalize_subnet (Some ''192.168'') = None \<and> normalize_subnet (Some ''host'') = Some ''host''"
  using normalize_subnet_by_parts[of "''192.168.178.0/24''"] normalize_subnet_by_parts[of "''192.168''"]
    normalize_subnet_by_parts[of "''host''"]
  by (simp add: cidr_stripped_def)

text \<open>
  Claim C10 as stated fails at two inputs with a single dot-separated part: the empty
  string gives None, and \<open>10/8\<close> gives \<open>10\<close>; neither is returned unchanged.
\<close>

theorem normalize_subnet_single_part_counterexample:
  "length (split (CHR ''.'') []) = 1 \<and> normalize_subnet (Some []) \<noteq> Some []
   \<and> normalize_subnet (Some []) = None
   \<and> length (split (CHR ''.'') ''10/8'') = 1 \<and> normalize_subnet (Some ''10/8'') \<noteq> Some ''10/8''"
  by (simp add: normalize_subnet_def cidr_stripped_def)

subsection \<open>A concrete environment\<close>

text \<open>
  An environment and a world to run the model in: a clock that stands still, a file
  system that never fails and holds no file, no interrupt, sets iterated in the order of
  insertion, and a neighbour table with one unicast entry and one entry whose address
  begins with FF.
\<close>

definition example_arp :: string where
  "example_arp =
     ''  192.168.1.1    00-11-22-33-44-55   dynamic   192.168.1.9    ff-11-22-33-44-5a   static ''"

definition example_env :: env where
  "example_env =
     \<lparr>clock = (\<lambda>n. \<lparr>iso = ''2024-05-01T12:00:00'', stamp = ''2024-05-01 12:00:00'',
                     file_stamp = ''20240501_120000'', hour = 12\<rparr>),
      io_fault = (\<lambda>n. None),
      arp_output = (\<lambda>n. Some example_arp),
      interrupt = (\<lambda>n. False),
      json_load = (\<lambda>s. None),
      json_dump = (\<lambda>v. (True, ''{}'')),
      set_order = (\<lambda>xs. xs),
      py_str = (\<lambda>v. ''?''),
      sleep_limit = 9223372036\<rparr>"

definition example_world :: world where
  "example_world = \<lparr>files = (\<lambda>p. None), sink = [], ticks = 0, ops = 0\<rparr>"

subsection \<open>scan\_arp\_table\<close>

lemma set_update_subset: "set (AList.update k v al) \<subseteq> insert (k, v) (set al)"
  by (induction al) auto

lemma scan_entries_keys:
  "fst ` set (fst (scan_entries e es acc w))
     = fst ` set acc \<union> {PStr ip |ip mac. (ip, mac) \<in> set es \<and> \<not> startswith mac ''FF:''}"
proof (induction es arbitrary: acc w)
  case Nil
  then show ?case by simp
next
  case (Cons a es)
  obtain ip mac where a: "a = (ip, mac)" by (cases a)
  show ?case
  proof (cases "startswith mac ''FF:''")
    case True
    then show ?thesis using Cons.IH[of acc w] a by auto
  next
    case False
    then have nb: "mac \<noteq> ''FF:FF:FF:FF:FF:FF''" by auto
    show ?thesis using False nb a
      by (auto simp: Cons.IH Let_def dom_update split: prod.splits)
  qed
qed

lemma scan_entries_values:
  assumes "\<forall>(k, v) \<in> set acc. \<exists>ip mac t. k = PStr ip \<and> v = device mac t \<and> \<not> startswith mac ''FF:''"
  shows "\<forall>(k, v) \<in> set (fst (scan_entries e es acc w)).
            \<exists>ip mac t. k = PStr ip \<and> v = device mac t \<and> \<not> startswith mac ''FF:''"
  using assms
proof (induction es arbitrary: acc w)
  case Nil
  then show ?case by simp
next
  case (Cons a es)
  obtain ip mac where a: "a = (ip, mac)" by (cases a)
  show ?case
  proof (cases "mac \<noteq> ''FF:FF:FF:FF:FF:FF'' \<and> \<not> startswith mac ''FF:''")
    case False
    then show ?thesis using Cons.IH[OF Cons.prems, of w] a by auto
  next
    case True
    define m where "m = (if length mac = 17 then mac else ''UNKNOWN'')"
    have m: "\<not> startswith m ''FF:''" using True by (simp add: m_def)
    obtain t w1 where now: "now e w = (t, w1)" by (cases "now e w")
    have acc': "\<forall>(k, v) \<in> set (AList.update (PStr ip) (device m (iso t)) acc).
            \<exists>ip mac t. k = PStr ip \<and> v = device mac t \<and> \<not> startswith mac ''FF:''"
      using Cons.prems m set_update_subset[of "PStr ip" "device m (iso t)" acc] by blast
    show ?thesis using True a now Cons.IH[OF acc', of w1] by (simp add: m_def)
  qed
qed

text \<open>
  Claim C9. Whatever \<^verbatim>\<open>arp -a\<close> prints, no device in the result of
  \<open>scan_arp_table\<close> has a link address that begins with \<open>FF:\<close>, and an IP is a key of the
  result exactly when the text has an entry for it whose normalized address does not
  begin with \<open>FF:\<close>: an entry with such an address adds nothing, whether the address is
  the broadcast address or not.
\<close>

theorem scan_arp_table_excludes_ff:
  assumes "arp_output e (ops w) = Some output"
  shows "(\<forall>(k, v) \<in> set (fst (scan_arp_table e w)).
            \<exists>ip mac t. k = PStr ip \<and> v = device mac t \<and> \<not> startswith mac ''FF:'')
       \<and> (\<forall>ip. PStr ip \<in> fst ` set (fst (scan_arp_table e w))
              \<longleftrightarrow> (\<exists>mac. (ip, mac) \<in> set (arp_entries output) \<and> \<not> startswith mac ''FF:''))"
proof -
  have s: "scan_arp_table e w = scan_entries e (arp_entries output) [] (count_op w)"
    using assms by (simp add: scan_arp_table_def)
  have "\<forall>(k, v) \<in> set ([] :: pydict).
          \<exists>ip mac t. k = PStr ip \<and> v = device mac t \<and> \<not> startswith mac ''FF:''"
    by simp
  from scan_entries_values[OF this]
  have 1: "\<forall>(k, v) \<in> set (fst (scan_arp_table e w)).
            \<exists>ip mac t. k = PStr ip \<and> v = device mac t \<and> \<not> startswith mac ''FF:''"
    unfolding s by blast
  have 2: "\<forall>ip. PStr ip \<in> fst ` set (fst (scan_arp_table e w))
              \<longleftrightarrow> (\<exists>mac. (ip, mac) \<in> set (arp_entries output) \<and> \<not> startswith mac ''FF:'')"
    unfolding s scan_entries_keys by auto
  from 1 2 show ?thesis by blast
qed

lemma example_arp_entries:
  "arp_entries example_arp
     = [(''192.168.1.1'', ''00:11:22:33:44:55''), (''192.168.1.9'', ''FF:11:22:33:44:5A'')]"
  by code_simp

theorem scan_arp_table_excludes_ff_witness:
  "arp_output example_env (ops example_world) = Some example_arp
   \<and> (''192.168.1.9'', ''FF:11:22:33:44:5A'') \<in> set (arp_entries example_arp)
   \<and> ''FF:11:22:33:44:5A'' \<noteq> ''FF:FF:FF:FF:FF:FF''
   \<and> PStr ''192.168.1.9'' \<notin> fst ` set (fst (scan_arp_table example_env example_world))
   \<and> PStr ''192.168.1.1'' \<in> fst ` set (fst (scan_arp_table example_env example_world))"
proof -
  have h: "arp_output example_env (ops example_world) = Some example_arp"
    by (simp add: example_env_def)
  from scan_arp_table_excludes_ff[OF h] show ?thesis
    by (simp add: h example_arp_entries)
qed

text \<open>
  The pattern asks for exactly 17 characters of the class, so every address the loop of
  \<open>scan_arp_table\<close> sees has length 17, and the test \<^verbatim>\<open>len(mac_raw) == 17\<close> never
  fails.
\<close>

lemma try_lens_Some:
  "try_lens k s lo n = Some ps \<Longrightarrow>
     \<exists>m rest. ps = take m s # rest \<and> lo \<le> m \<and> m \<le> n \<and> k (drop m s) = Some rest"
proof (induction n)
  case 0
  then show ?case by (cases "k (drop 0 s)") (auto split: if_splits)
next
  case (Suc n)
  show ?case
  proof (cases "k (drop (Suc n) s)")
    case (Some r)
    with Suc.prems have "ps = take (Suc n) s # r \<and> lo \<le> Suc n" by (auto split: if_splits)
    with Some show ?thesis by blast
  next
    case None
    with Suc.prems have "try_lens k s lo n = Some ps" by (auto split: if_splits)
    from Suc.IH[OF this] obtain m rest where
      "ps = take m s # rest" "lo \<le> m" "m \<le> n" "k (drop m s) = Some rest" by blast
    then have "ps = take m s # rest \<and> lo \<le> m \<and> m \<le> Suc n \<and> k (drop m s) = Some rest" by simp
    then show ?thesis by blast
  qed
qed

definition fits :: "item \<Rightarrow> string \<Rightarrow> bool" where
  "fits it p =
     (case it of (cls, lo, hi) \<Rightarrow>
        lo \<le> length p \<and> (case hi of None \<Rightarrow> True | Some h \<Rightarrow> length p \<le> h))"

lemma match_item_Some:
  assumes "match_item it k s = Some ps"
  shows "\<exists>p rest s'. ps = p # rest \<and> fits it p \<and> k s' = Some rest"
proof -
  obtain cls lo hi where it: "it = (cls, lo, hi)" by (cases it)
  define n where
    "n = (case hi of None \<Rightarrow> length (takeWhile cls s) | Some h \<Rightarrow> min h (length (takeWhile cls s)))"
  have n1: "n \<le> length s"
    using length_takeWhile_le[of cls s] by (auto simp: n_def split: option.splits)
  have n2: "case hi of None \<Rightarrow> True | Some h \<Rightarrow> n \<le> h"
    by (auto simp: n_def split: option.splits)
  from assms have "try_lens k s lo n = Some ps" by (simp add: match_item_def n_def Let_def it)
  from try_lens_Some[OF this] obtain m rest where
    m: "ps = take m s # rest" "lo \<le> m" "m \<le> n" "k (drop m s) = Some rest" by blast
  have "length (take m s) = m" using m(3) n1 by simp
  then have "fits it (take m s)" using m(2,3) n2 by (auto simp: fits_def it split: option.splits)
  with m show ?thesis by blast
qed

lemma match_here_fits: "match_here its s = Some ps \<Longrightarrow> list_all2 fits its ps"
proof (induction its arbitrary: s ps)
  case Nil
  then show ?case by simp
next
  case (Cons it its)
  from Cons.prems have "match_item it (match_here its) s = Some ps" by simp
  from match_item_Some[OF this] obtain p rest s' where
    "ps = p # rest" "fits it p" "match_here its s' = Some rest" by blast
  with Cons.IH show ?case by simp
qed

lemma match_arp_pattern_mac:
  assumes "match_here arp_pattern s = Some ps"
  shows "length (group2 ps) = 17"
proof -
  from match_here_fits[OF assms] have l: "list_all2 fits arp_pattern ps" .
  then have len: "length ps = 10" by (auto simp: arp_pattern_def dest: list_all2_lengthD)
  from l have "fits (arp_pattern ! 8) (ps ! 8)" using len by (simp add: list_all2_conv_all_nth)
  then have "length (ps ! 8) = 17" by (simp add: arp_pattern_def fits_def)
  moreover have "group2 ps = ps ! 8" using len
    by (simp add: group2_def take_Suc_conv_app_nth Cons_nth_drop_Suc[symmetric])
  ultimately show ?thesis by simp
qed

lemma finditer_mac: "ps \<in> set (finditer s) \<Longrightarrow> length (group2 ps) = 17"
proof (induction s rule: finditer.induct)
  case 1
  then show ?case by simp
next
  case (2 x xs)
  then show ?case by (auto split: option.splits dest: match_arp_pattern_mac)
qed

lemma arp_entries_mac_length: "(ip, mac) \<in> set (arp_entries output) \<Longrightarrow> length mac = 17"
  by (auto simp: arp_entries_def replace_char_def upper_def dest: finditer_mac)

text \<open>
  Claim C5 fails on the code. A line whose link address is too short is not matched by
  the pattern at all, so its IP is missing from the result; a line whose link address has
  17 characters of the class but is not six pairs of hex digits is stored with that
  address, not with \<open>UNKNOWN\<close>.
\<close>

theorem scan_arp_table_malformed_mac:
  "fst (scan_arp_table
         (e\<lparr>arp_output := (\<lambda>n. Some ''  192.168.1.7     00-11-22-33-44     dynamic '')\<rparr>) w) = []
   \<and> map fst (fst (scan_arp_table
         (e\<lparr>arp_output := (\<lambda>n. Some ''  192.168.1.8     00-11-22-33-44--5     dynamic '')\<rparr>) w))
       = [PStr ''192.168.1.8'']
   \<and> arp_entries ''  192.168.1.8     00-11-22-33-44--5     dynamic ''
       = [(''192.168.1.8'', ''00:11:22:33:44::5'')]"
proof -
  have 1: "arp_entries ''  192.168.1.7     00-11-22-33-44     dynamic '' = []"
    by code_simp
  have 2: "arp_entries ''  192.168.1.8     00-11-22-33-44--5     dynamic ''
       = [(''192.168.1.8'', ''00:11:22:33:44::5'')]"
    by code_simp
  show ?thesis
    by (simp add: scan_arp_table_def 1 2 Let_def split: prod.splits)
qed

subsection \<open>save\_state and load\_state\<close>

text \<open>More of the concrete environment: a path for the state file, a device set, an
  environment whose JSON functions take the snapshot of that device set to a text and
  back, a world that holds an older state file, and an environment in which the second
  call out of the process fails.\<close>

definition example_state_path :: path where
  "example_state_path = Path ''/opt/wlan'' ''wlan_status.json''"

definition example_devices :: pydict where
  "example_devices = [(PStr ''192.168.1.1'', device ''00:11:22:33:44:55'' ''2024-05-01T12:00:00'')]"

definition example_snapshot :: pyval where
  "example_snapshot = snapshot (PDict example_devices) (clock example_env 0)"

definition codec_env :: env where
  "codec_env = example_env
     \<lparr>json_load := (\<lambda>s. if s = ''snapshot 1'' then Some example_snapshot else None),
      json_dump := (\<lambda>v. (True, if v = example_snapshot then ''snapshot 1'' else ''other''))\<rparr>"

definition old_world :: world where
  "old_world = example_world\<lparr>files := (\<lambda>p. if p = example_state_path then Some ''old snapshot'' else None)\<rparr>"

definition failing_env :: env where
  "failing_env = example_env\<lparr>io_fault := (\<lambda>n. if n = 1 then Some Refused else None)\<rparr>"

lemma stem_suffix: "stem nm @ suffix nm = nm"
  by (simp add: stem_def suffix_def Let_def)

lemma temp_path_eq:
  "name p \<noteq> [] \<Longrightarrow> with_suffix p (suffix (name p) @ ''.tmp'') = Some (Path (parent p) (name p @ ''.tmp''))"
  using stem_suffix[of "name p"] by (simp add: with_suffix_def flip: append_assoc)

lemma temp_path_neq: "Path (parent p) (name p @ ''.tmp'') \<noteq> p"
  by (cases p) simp

lemma write_text_other: "q \<noteq> p \<Longrightarrow> files (snd (write_text e q s w)) p = files w p"
  by (simp add: write_text_def count_op_def split: option.splits fault.splits)

lemma write_text_other': "p \<noteq> q \<Longrightarrow> files (snd (write_text e q s w)) p = files w p"
  by (simp add: write_text_def count_op_def split: option.splits fault.splits)

lemma write_text_ok:
  "fst (write_text e q s w) \<longleftrightarrow> io_fault e (ops w) = None"
  by (simp add: write_text_def split: option.splits fault.splits)

lemma write_text_done:
  "fst (write_text e q s w) \<Longrightarrow> files (snd (write_text e q s w)) q = Some s"
  by (simp add: write_text_def count_op_def split: option.splits fault.splits)

lemma write_text_ops: "ops (snd (write_text e q s w)) = Suc (ops w)"
  by (simp add: write_text_def count_op_def split: option.splits fault.splits)

lemma now_files [simp]: "files (snd (now e w)) = files w" "ops (snd (now e w)) = ops w"
  "sink (snd (now e w)) = sink w" "fst (now e w) = clock e (ticks w)"
  by (simp_all add: now_def)

lemma save_state_named:
  "name p \<noteq> [] \<Longrightarrow>
   save_state e p devices w =
     (let temp = Path (parent p) (name p @ ''.tmp'');
          doc = json_dump e (snapshot devices (clock e (ticks w)));
          r = write_text e temp (snd doc) (snd (now e w))
      in if fst r \<and> fst doc then rename e temp p (snd r) else (False, snd r))"
  by (simp add: save_state_def temp_path_eq Let_def case_prod_beta)

lemma save_state_empty_name: "name p = [] \<Longrightarrow> save_state e p devices w = (False, snd (now e w))"
  by (simp add: save_state_def with_suffix_def case_prod_beta)

lemma rename_True:
  "fst (rename e src dst w) \<Longrightarrow>
     files (snd (rename e src dst w)) dst = files w src \<and> files w src \<noteq> None
     \<and> ops (snd (rename e src dst w)) = Suc (ops w)"
  by (auto simp: rename_def count_op_def split: option.splits)

lemma save_state_True:
  assumes "fst (save_state e p devices w)"
  shows "files (snd (save_state e p devices w)) p
           = Some (snd (json_dump e (snapshot devices (clock e (ticks w)))))"
    and "ops (snd (save_state e p devices w)) = Suc (Suc (ops w))"
proof -
  have nm: "name p \<noteq> []" using assms save_state_empty_name[of p e devices w] by auto
  define temp where "temp = Path (parent p) (name p @ ''.tmp'')"
  define doc where "doc = json_dump e (snapshot devices (clock e (ticks w)))"
  define r where "r = write_text e temp (snd doc) (snd (now e w))"
  have ss: "save_state e p devices w = (if fst r \<and> fst doc then rename e temp p (snd r) else (False, snd r))"
    using save_state_named[OF nm, of e devices w] by (simp add: Let_def temp_def doc_def r_def)
  with assms have ok: "fst r" "fst doc" and rn: "fst (rename e temp p (snd r))"
    and eq: "save_state e p devices w = rename e temp p (snd r)"
    by (auto split: if_splits)
  have "files (snd r) temp = Some (snd doc)" using ok(1) write_text_done[of e temp "snd doc" "snd (now e w)"]
    by (simp add: r_def)
  moreover have "ops (snd r) = Suc (ops w)" using write_text_ops[of e temp "snd doc" "snd (now e w)"]
    by (simp add: r_def)
  ultimately show "files (snd (save_state e p devices w)) p
           = Some (snd (json_dump e (snapshot devices (clock e (ticks w)))))"
    and "ops (snd (save_state e p devices w)) = Suc (Suc (ops w))"
    using rename_True[OF rn] eq by (simp_all add: doc_def)
qed

lemma device_set_not_legacy:
  assumes "\<forall>(k, v) \<in> set ds. \<exists>mac seen. v = device mac seen"
  shows "\<not> legacy_shape ds"
proof (cases ds)
  case Nil
  then show ?thesis by (simp add: legacy_shape_def)
next
  case (Cons a rest)
  obtain k v where a: "a = (k, v)" by (cases a)
  with assms Cons obtain mac seen where "v = device mac seen" by auto
  with Cons a show ?thesis by (simp add: legacy_shape_def device_def)
qed

lemma load_data_snapshot:
  assumes "\<forall>(k, v) \<in> set ds. \<exists>mac seen. v = device mac seen"
  shows "load_data e (snapshot (PDict ds) t) w = (snapshot (PDict ds) t, w)"
  using device_set_not_legacy[OF assms]
  by (simp add: load_data_def snapshot_def)

text \<open>
  Claim C6. \<open>save_state\<close> returns True exactly when the path has a name,
  \<^verbatim>\<open>json.dump\<close> produced the whole text, and neither the write to the temporary path
  nor the replacement failed. Then the target holds the whole text and the temporary
  file is gone. When it returns False the target holds what it held before. Between the
  write and the replacement the target still holds what it held before, and no path
  other than the target and the temporary path changes at any point: a text cut short
  is only ever at the temporary path.
\<close>

theorem save_state_atomic:
  fixes e p devices w
  defines "temp \<equiv> Path (parent p) (name p @ ''.tmp'')"
    and "doc \<equiv> json_dump e (snapshot devices (clock e (ticks w)))"
    and "w_mid \<equiv> snd (write_text e (Path (parent p) (name p @ ''.tmp''))
                        (snd (json_dump e (snapshot devices (clock e (ticks w))))) (snd (now e w)))"
    and "ok \<equiv> fst (save_state e p devices w)"
    and "w' \<equiv> snd (save_state e p devices w)"
  shows "(ok \<longleftrightarrow> name p \<noteq> [] \<and> fst doc \<and> io_fault e (ops w) = None \<and> io_fault e (Suc (ops w)) = None)
       \<and> (ok \<longrightarrow> files w' p = Some (snd doc) \<and> files w' temp = None)
       \<and> (\<not> ok \<longrightarrow> files w' p = files w p)
       \<and> files w_mid p = files w p
       \<and> (\<forall>q. q \<noteq> p \<and> q \<noteq> temp \<longrightarrow> files w' q = files w q \<and> files w_mid q = files w q)"
proof (cases "name p = []")
  case True
  then show ?thesis
    unfolding ok_def w'_def w_mid_def temp_def doc_def
    using temp_path_neq[of p]
    by (simp add: save_state_def with_suffix_def write_text_other write_text_other' case_prod_beta Let_def)
next
  case False
  obtain t w1 where n: "now e w = (t, w1)" by (cases "now e w")
  then have t: "t = clock e (ticks w)" and w1: "files w1 = files w" "ops w1 = ops w"
    by (auto simp: now_def)
  obtain complete body where d: "json_dump e (snapshot devices t) = (complete, body)"
    by (cases "json_dump e (snapshot devices t)")
  obtain written w2 where wr: "write_text e temp body w1 = (written, w2)"
    by (cases "write_text e temp body w1")
  have wr_ok: "written \<longleftrightarrow> io_fault e (ops w) = None"
    using write_text_ok[of e temp body w1] wr w1 by simp
  have w2p: "files w2 p = files w p" and w2q: "\<And>q. q \<noteq> temp \<Longrightarrow> files w2 q = files w q"
    and w2ops: "ops w2 = Suc (ops w)"
    using write_text_other[of temp _ e body w1] write_text_ops[of e temp body w1] wr w1 temp_path_neq[of p]
    by (auto simp: temp_def)
  have w2t: "written \<Longrightarrow> files w2 temp = Some body"
    using write_text_done[of e temp body w1] wr by simp
  have ss: "save_state e p devices w = (if written \<and> complete then rename e temp p w2 else (False, w2))"
    using False n d wr by (simp add: save_state_def temp_path_eq temp_def)
  have mid: "w_mid = w2" using n d wr t by (simp add: w_mid_def temp_def)
  have doc: "doc = (complete, body)" using d t by (simp add: doc_def)
  show ?thesis
  proof (cases "written \<and> complete")
    case False
    then show ?thesis
      unfolding ok_def w'_def mid doc using ss w2p w2q wr_ok \<open>name p \<noteq> []\<close> by auto
  next
    case True
    then have ft: "files w2 temp = Some body" using w2t by simp
    have neq: "temp \<noteq> p" using temp_path_neq[of p] by (simp add: temp_def)
    show ?thesis
    proof (cases "io_fault e (Suc (ops w))")
      case None
      then have "rename e temp p w2 = (True, count_op (w2\<lparr>files := (files w2)(temp := None, p \<mapsto> body)\<rparr>))"
        using ft w2ops by (simp add: rename_def)
      then show ?thesis
        unfolding ok_def w'_def mid doc using ss True w2p w2q wr_ok \<open>name p \<noteq> []\<close> None neq
        by (auto simp: count_op_def)
    next
      case (Some f)
      then have "rename e temp p w2 = (False, count_op w2)"
        using ft w2ops by (simp add: rename_def)
      then show ?thesis
        unfolding ok_def w'_def mid doc using ss True w2p w2q wr_ok \<open>name p \<noteq> []\<close> Some neq
        by (auto simp: count_op_def)
    qed
  qed
qed

theorem save_state_atomic_witness:
  "fst (save_state example_env example_state_path (PDict example_devices) old_world)
   \<and> files (snd (save_state example_env example_state_path (PDict example_devices) old_world))
        example_state_path = Some ''{}''
   \<and> \<not> fst (save_state failing_env example_state_path (PDict example_devices) old_world)
   \<and> files (snd (save_state failing_env example_state_path (PDict example_devices) old_world))
        example_state_path = Some ''old snapshot''"
  using save_state_atomic[of example_env example_state_path "PDict example_devices" old_world]
    save_state_atomic[of failing_env example_state_path "PDict example_devices" old_world]
  by (simp add: example_env_def example_state_path_def old_world_def example_world_def failing_env_def)

text \<open>
  Claim C2. Let \<open>ds\<close> be a device set: IP keys, each value a dictionary with a
  \<open>mac\<close> and a \<open>last_seen\<close> string. When \<open>save_state\<close> returns True, \<^verbatim>\<open>json.load\<close>
  reads back what \<^verbatim>\<open>json.dump\<close> wrote for the snapshot, and the file can be read,
  \<open>load_state\<close> on the same path returns the snapshot that was saved, and its
  \<open>devices\<close> entry is \<open>ds\<close> itself, keys, values and order. This holds for an empty
  device set as well.
\<close>

theorem save_then_load:
  assumes devs: "\<forall>(k, v) \<in> set ds. \<exists>ip mac seen. k = PStr ip \<and> v = device mac seen"
    and saved: "fst (save_state e p (PDict ds) w)"
    and codec: "json_load e (snd (json_dump e (snapshot (PDict ds) (clock e (ticks w)))))
                  = Some (snapshot (PDict ds) (clock e (ticks w)))"
    and readable: "io_fault e (Suc (Suc (ops w))) = None"
  shows "fst (load_state e p (snd (save_state e p (PDict ds) w)))
           = snapshot (PDict ds) (clock e (ticks w))
       \<and> py_subscript (fst (load_state e p (snd (save_state e p (PDict ds) w)))) ''devices''
           = Some (PDict ds)"
proof -
  define w1 where "w1 = snd (save_state e p (PDict ds) w)"
  define t where "t = clock e (ticks w)"
  have f: "files w1 p = Some (snd (json_dump e (snapshot (PDict ds) t)))" and o: "ops w1 = Suc (Suc (ops w))"
    using save_state_True[OF saved] by (simp_all add: w1_def t_def)
  have rd: "read_text e p w1 = (Some (snd (json_dump e (snapshot (PDict ds) t))), count_op w1)"
    using f o readable by (simp add: read_text_def)
  have d: "\<forall>(k, v) \<in> set ds. \<exists>mac seen. v = device mac seen" using devs by fast
  have "load_state e p w1 = (snapshot (PDict ds) t, count_op w1)"
    using f rd codec load_data_snapshot[OF d] by (simp add: load_state_def t_def)
  then show ?thesis by (simp add: w1_def t_def snapshot_def)
qed

theorem save_then_load_witness:
  "fst (save_state codec_env example_state_path (PDict example_devices) example_world)
   \<and> py_subscript (fst (load_state codec_env example_state_path
          (snd (save_state codec_env example_state_path (PDict example_devices) example_world))))
        ''devices'' = Some (PDict example_devices)"
proof -
  have 1: "\<forall>(k, v) \<in> set example_devices. \<exists>ip mac seen. k = PStr ip \<and> v = device mac seen"
    by (auto simp: example_devices_def)
  have 2: "fst (save_state codec_env example_state_path (PDict example_devices) example_world)"
    by (simp add: save_state_named example_state_path_def codec_env_def example_env_def
        example_world_def write_text_def rename_def count_op_def now_def)
  have 3: "json_load codec_env (snd (json_dump codec_env
             (snapshot (PDict example_devices) (clock codec_env (ticks example_world)))))
           = Some (snapshot (PDict example_devices) (clock codec_env (ticks example_world)))"
    by (simp add: codec_env_def example_snapshot_def example_world_def)
  have 4: "io_fault codec_env (Suc (Suc (ops example_world))) = None"
    by (simp add: codec_env_def example_env_def)
  from save_then_load[OF 1 2 3 4] 2 show ?thesis by blast
qed

subsection \<open>load\_state: migration of the old format\<close>

text \<open>
  What the migration makes of one entry of the old dictionary, which maps a link address
  to a dictionary with an \<open>ip\<close> and a \<open>last_seen\<close>: the key is the IP, the value holds
  the former key as \<open>mac\<close> and the \<open>last_seen\<close> of the entry. \<open>legacy_entry\<close> says
  that an entry has this old form: its \<open>ip\<close> is a string or null, and it has a
  \<open>last_seen\<close>. \<open>kept\<close> is the test \<^verbatim>\<open>if ip:\<close> of the loop, which passes over an entry
  whose IP is the empty string or null. \<open>store\<close> is the assignment
  \<^verbatim>\<open>new_devices[ip] = ...\<close> of the loop.
\<close>

definition migrated_entry :: "pyval \<times> pyval \<Rightarrow> pyval \<times> pyval" where
  "migrated_entry = (\<lambda>(mac, info).
     case info of
       PDict flds \<Rightarrow>
         (dict_get flds (PStr ''ip'') PNone,
          PDict [(PStr ''mac'', mac), (PStr ''last_seen'', dict_get flds (PStr ''last_seen'') PNone)])
     | _ \<Rightarrow> (PNone, PNone))"

definition legacy_entry :: "pyval \<times> pyval \<Rightarrow> bool" where
  "legacy_entry = (\<lambda>(mac, info).
     \<exists>flds ip seen. info = PDict flds \<and> map_of flds (PStr ''ip'') = Some ip
        \<and> (ip = PNone \<or> (\<exists>s. ip = PStr s))
        \<and> map_of flds (PStr ''last_seen'') = Some seen)"

definition kept :: "pyval \<times> pyval \<Rightarrow> bool" where
  "kept x = truthy (fst (migrated_entry x))"

definition store :: "pydict \<Rightarrow> pyval \<times> pyval \<Rightarrow> pydict" where
  "store acc x = AList.update (fst (migrated_entry x)) (snd (migrated_entry x)) acc"

lemma map_of_Some_key: "map_of al k = Some v \<Longrightarrow> k \<in> fst ` set al"
  by (force dest: map_of_SomeD)

lemma migrate_step:
  assumes "legacy_entry (mac, info)"
  shows "migrate e ((mac, info) # rest) acc w
           = (if kept (mac, info) then migrate e rest (store acc (mac, info)) (snd (now e w))
              else migrate e rest acc w)"
proof -
  from assms obtain flds ip seen where i: "info = PDict flds"
    "map_of flds (PStr ''ip'') = Some ip" "ip = PNone \<or> (\<exists>s. ip = PStr s)"
    "map_of flds (PStr ''last_seen'') = Some seen"
    by (auto simp: legacy_entry_def)
  from i(3) have h: "hashable ip" by auto
  from i(1,2,4) h show ?thesis
    by (simp add: store_def kept_def migrated_entry_def dict_get_def Let_def case_prod_beta)
qed

lemma migrate_foldl:
  "\<forall>x \<in> set es. legacy_entry x \<Longrightarrow>
     fst (migrate e es acc w) = Some (foldl store acc (filter kept es))"
proof (induction es arbitrary: acc w)
  case Nil
  then show ?case by simp
next
  case (Cons x es)
  obtain mac info where x: "x = (mac, info)" by (cases x)
  with Cons.prems have "legacy_entry (mac, info)" by simp
  from migrate_step[OF this] Cons x show ?case by simp
qed

lemma foldl_store_subset: "set (foldl store acc es) \<subseteq> set acc \<union> migrated_entry ` set es"
proof (induction es arbitrary: acc)
  case Nil
  then show ?case by simp
next
  case (Cons x es)
  have "set (store acc x) \<subseteq> insert (migrated_entry x) (set acc)"
    using set_update_subset[of "fst (migrated_entry x)" "snd (migrated_entry x)" acc]
    by (simp add: store_def)
  with Cons.IH[of "store acc x"] show ?case by auto
qed

lemma foldl_store_keys: "fst ` set (foldl store acc es) = fst ` set acc \<union> fst ` migrated_entry ` set es"
proof (induction es arbitrary: acc)
  case Nil
  then show ?case by simp
next
  case (Cons x es)
  have "fst ` set (store acc x) = insert (fst (migrated_entry x)) (fst ` set acc)"
    by (simp add: store_def dom_update)
  with Cons.IH[of "store acc x"] show ?case by auto
qed

lemma update_fresh: "k \<notin> fst ` set al \<Longrightarrow> AList.update k v al = al @ [(k, v)]"
  by (induction al) auto

lemma foldl_store_distinct:
  "distinct (map fst acc @ map (fst \<circ> migrated_entry) es) \<Longrightarrow>
     foldl store acc es = acc @ map migrated_entry es"
proof (induction es arbitrary: acc)
  case Nil
  then show ?case by simp
next
  case (Cons x es)
  from Cons.prems have fresh: "fst (migrated_entry x) \<notin> fst ` set acc" by auto
  then have s: "store acc x = acc @ [migrated_entry x]"
    by (simp add: store_def update_fresh)
  from Cons.prems have "distinct (map fst (acc @ [migrated_entry x]) @ map (fst \<circ> migrated_entry) es)"
    by (auto simp: comp_def)
  from Cons.IH[OF this] s show ?case by simp
qed

lemma legacy_entry_shape: "legacy \<noteq> [] \<Longrightarrow> \<forall>x \<in> set legacy. legacy_entry x \<Longrightarrow> legacy_shape legacy"
proof -
  assume ne: "legacy \<noteq> []" and all: "\<forall>x \<in> set legacy. legacy_entry x"
  then obtain mac info rest where l: "legacy = (mac, info) # rest" by (cases legacy) auto
  with all obtain flds ip where "info = PDict flds" "map_of flds (PStr ''ip'') = Some ip"
    by (auto simp: legacy_entry_def)
  moreover from this have "PStr ''ip'' \<in> fst ` set flds" by (simp add: map_of_Some_key)
  ultimately show ?thesis using l by (simp add: legacy_shape_def)
qed

text \<open>
  More of the concrete environment. \<open>legacy_doc\<close> is a snapshot whose \<open>devices\<close> entry
  is in the old format, with one entry whose IP is null; \<open>literal_doc\<close> is the old
  dictionary alone, with no \<open>devices\<close> key around it.
\<close>

definition legacy_doc :: pyval where
  "legacy_doc =
     PDict [(PStr ''devices'',
             PDict [(PStr ''AA:BB:CC:DD:EE:FF'',
                     PDict [(PStr ''ip'', PStr ''10.0.0.5''),
                            (PStr ''last_seen'', PStr ''2023-01-01T08:00:00'')]),
                    (PStr ''AA:BB:CC:DD:EE:00'',
                     PDict [(PStr ''ip'', PNone),
                            (PStr ''last_seen'', PStr ''2023-01-01T07:00:00'')])]),
            (PStr ''last_scan'', PStr ''2023-01-01T08:00:05'')]"

definition literal_doc :: pyval where
  "literal_doc =
     PDict [(PStr ''AA:BB:CC:DD:EE:FF'',
             PDict [(PStr ''ip'', PStr ''10.0.0.5''),
                    (PStr ''last_seen'', PStr ''2023-01-01T08:00:00'')])]"

definition legacy_env :: env where
  "legacy_env = example_env
     \<lparr>json_load := (\<lambda>s. if s = ''legacy snapshot'' then Some legacy_doc
                        else if s = ''legacy entries'' then Some literal_doc else None)\<rparr>"

definition legacy_world :: world where
  "legacy_world =
     example_world\<lparr>files := (\<lambda>p. if p = example_state_path then Some ''legacy snapshot'' else None)\<rparr>"

definition literal_world :: world where
  "literal_world =
     example_world\<lparr>files := (\<lambda>p. if p = example_state_path then Some ''legacy entries'' else None)\<rparr>"

text \<open>
  Claim C3, as the code has it. Let the state file be readable and hold a JSON object
  whose \<open>devices\<close> entry is a dictionary in the old format: every entry maps a link
  address to a dictionary with an \<open>ip\<close> (a string or null) and a \<open>last_seen\<close>. Then
  \<open>load_state\<close> returns the object with its \<open>devices\<close> entry replaced by a dictionary
  \<open>new\<close> keyed by IP: every entry of \<open>new\<close> is the migrated form (the former key as its
  \<open>mac\<close>, the original \<open>last_seen\<close>) of an old entry with a non-empty IP, the IP of
  every such old entry is a key of \<open>new\<close>, an old entry whose IP is empty or null leaves
  no key, and when no two of the old entries with a non-empty IP share it, \<open>new\<close> is the
  list of their migrated forms, in the old order.
\<close>

theorem load_state_migrates_legacy:
  assumes present: "files w p = Some body" and readable: "io_fault e (ops w) = None"
    and parse: "json_load e body = Some (PDict d)"
    and devs: "map_of d (PStr ''devices'') = Some (PDict legacy)"
    and entries: "\<forall>x \<in> set legacy. legacy_entry x"
  shows "\<exists>new. fst (load_state e p w) = PDict (AList.update (PStr ''devices'') (PDict new) d)
           \<and> (\<forall>x \<in> set new. \<exists>y \<in> set legacy. kept y \<and> x = migrated_entry y)
           \<and> (\<forall>y \<in> set legacy. kept y \<longrightarrow> fst (migrated_entry y) \<in> fst ` set new)
           \<and> (\<forall>y \<in> set legacy. \<not> kept y \<longrightarrow> fst (migrated_entry y) \<notin> fst ` set new)
           \<and> (distinct (map (fst \<circ> migrated_entry) (filter kept legacy))
                 \<longrightarrow> new = map migrated_entry (filter kept legacy))"
proof -
  define new where "new = foldl store [] (filter kept legacy)"
  have key: "PStr ''devices'' \<in> fst ` set d" using devs by (rule map_of_Some_key)
  have 1: "fst (load_state e p w) = PDict (AList.update (PStr ''devices'') (PDict new) d)"
  proof (cases "legacy = []")
    case True
    have "load_data e (PDict d) (count_op w) = (PDict d, count_op w)"
      using key devs True by (simp add: load_data_def)
    then have "fst (load_state e p w) = PDict d"
      using present readable parse by (simp add: load_state_def read_text_def)
    moreover have "AList.update (PStr ''devices'') (PDict []) d = d"
      using devs True by (simp add: update_triv)
    ultimately show ?thesis using True by (simp add: new_def)
  next
    case False
    have "fst (migrate e legacy [] (count_op w)) = Some new"
      using migrate_foldl[OF entries] by (simp add: new_def)
    then obtain w1 where mm: "migrate e legacy [] (count_op w) = (Some new, w1)"
      by (cases "migrate e legacy [] (count_op w)") auto
    have "fst (load_data e (PDict d) (count_op w))
            = PDict (AList.update (PStr ''devices'') (PDict new) d)"
      using key devs False legacy_entry_shape[OF False entries] mm
      by (simp add: load_data_def)
    then show ?thesis
      using present readable parse by (simp add: load_state_def read_text_def)
  qed
  have sub: "set new \<subseteq> migrated_entry ` set (filter kept legacy)"
    using foldl_store_subset[of "[]" "filter kept legacy"] by (simp add: new_def)
  have keys: "fst ` set new = fst ` migrated_entry ` set (filter kept legacy)"
    using foldl_store_keys[of "[]" "filter kept legacy"] by (simp add: new_def)
  have 2: "\<forall>x \<in> set new. \<exists>y \<in> set legacy. kept y \<and> x = migrated_entry y"
    using sub by auto
  have 3: "\<forall>y \<in> set legacy. kept y \<longrightarrow> fst (migrated_entry y) \<in> fst ` set new"
    unfolding keys by auto
  have 4: "\<forall>y \<in> set legacy. \<not> kept y \<longrightarrow> fst (migrated_entry y) \<notin> fst ` set new"
  proof (intro ballI impI notI)
    fix y
    assume "\<not> kept y" and "fst (migrated_entry y) \<in> fst ` set new"
    then obtain z where "z \<in> set legacy" "kept z" "fst (migrated_entry z) = fst (migrated_entry y)"
      unfolding keys by auto
    with \<open>\<not> kept y\<close> show False by (simp add: kept_def)
  qed
  have 5: "distinct (map (fst \<circ> migrated_entry) (filter kept legacy))
             \<longrightarrow> new = map migrated_entry (filter kept legacy)"
    using foldl_store_distinct[of "[]" "filter kept legacy"] by (simp add: new_def)
  from 1 2 3 4 5 show ?thesis by blast
qed

theorem load_state_migrates_legacy_witness:
  "fst (load_state legacy_env example_state_path legacy_world)
     = PDict [(PStr ''devices'',
               PDict [(PStr ''10.0.0.5'',
                       PDict [(PStr ''mac'', PStr ''AA:BB:CC:DD:EE:FF''),
                              (PStr ''last_seen'', PStr ''2023-01-01T08:00:00'')])]),
              (PStr ''last_scan'', PStr ''2023-01-01T08:00:05'')]"
proof -
  define legacy where "legacy = [(PStr ''AA:BB:CC:DD:EE:FF'',
                     PDict [(PStr ''ip'', PStr ''10.0.0.5''),
                            (PStr ''last_seen'', PStr ''2023-01-01T08:00:00'')]),
                    (PStr ''AA:BB:CC:DD:EE:00'',
                     PDict [(PStr ''ip'', PNone),
                            (PStr ''last_seen'', PStr ''2023-01-01T07:00:00'')])]"
  define d where "d = [(PStr ''devices'', PDict legacy), (PStr ''last_scan'', PStr ''2023-01-01T08:00:05'')]"
  have 1: "files legacy_world example_state_path = Some ''legacy snapshot''"
    by (simp add: legacy_world_def)
  have 2: "io_fault legacy_env (ops legacy_world) = None"
    by (simp add: legacy_env_def example_env_def)
  have 3: "json_load legacy_env ''legacy snapshot'' = Some (PDict d)"
    by (simp add: legacy_env_def legacy_doc_def d_def legacy_def)
  have 4: "map_of d (PStr ''devices'') = Some (PDict legacy)"
    by (simp add: d_def)
  have 5: "\<forall>x \<in> set legacy. legacy_entry x"
    by (simp add: legacy_def legacy_entry_def)
  have 6: "filter kept legacy = [(PStr ''AA:BB:CC:DD:EE:FF'',
                     PDict [(PStr ''ip'', PStr ''10.0.0.5''),
                            (PStr ''last_seen'', PStr ''2023-01-01T08:00:00'')])]"
    by (simp add: legacy_def kept_def migrated_entry_def dict_get_def)
  from load_state_migrates_legacy[OF 1 2 3 4 5] show ?thesis
    unfolding 6 by (auto simp: d_def migrated_entry_def dict_get_def)
qed

text \<open>
  Claim C3 as stated fails at its own example. The test for the old format is made on
  the \<open>devices\<close> entry of the document: a file that holds the old dictionary itself,
  with no \<open>devices\<close> key around it, is returned as it is, not keyed by IP, and the result
  has no \<open>devices\<close> entry.
\<close>

lemma load_data_without_devices:
  "py_contains ''devices'' data = Some False \<Longrightarrow> load_data e data w = (data, w)"
  by (simp add: load_data_def)

theorem load_state_literal_counterexample:
  "json_load legacy_env ''legacy entries''
     = Some (PDict [(PStr ''AA:BB:CC:DD:EE:FF'',
                     PDict [(PStr ''ip'', PStr ''10.0.0.5''),
                            (PStr ''last_seen'', PStr ''2023-01-01T08:00:00'')])])
   \<and> fst (load_state legacy_env example_state_path literal_world)
       = PDict [(PStr ''AA:BB:CC:DD:EE:FF'',
                 PDict [(PStr ''ip'', PStr ''10.0.0.5''),
                        (PStr ''last_seen'', PStr ''2023-01-01T08:00:00'')])]
   \<and> py_subscript (fst (load_state legacy_env example_state_path literal_world)) ''devices'' = None"
proof -
  have c: "py_contains ''devices'' literal_doc = Some False"
    by (simp add: literal_doc_def)
  have "load_state legacy_env example_state_path literal_world
          = (literal_doc, count_op literal_world)"
    using load_data_without_devices[OF c]
    by (simp add: load_state_def read_text_def literal_world_def legacy_env_def example_env_def
        example_world_def)
  then show ?thesis by (simp add: literal_doc_def legacy_env_def)
qed

subsection \<open>append\_log and the rotation of the log\<close>

text \<open>More of the concrete environment: a path for the log, the configuration of the
  program, a log file of exactly 500 KB and a short one.\<close>

definition example_log_path :: path where
  "example_log_path = Path ''/opt/wlan'' ''wlan_connection_log.txt''"

definition example_config :: config where
  "example_config = \<lparr>scan_interval = 10, max_log_size_kb = 500,
     state_path = example_state_path, log_path = example_log_path, once = False\<rparr>"

definition full_log :: string where
  "full_log = replicate 512000 (CHR ''x'')"

definition full_log_world :: world where
  "full_log_world = example_world\<lparr>files := (\<lambda>p. if p = example_log_path then Some full_log else None)\<rparr>"

definition short_log_world :: world where
  "short_log_world =
     example_world\<lparr>files := (\<lambda>p. if p = example_log_path then Some ''earlier entry'' else None)\<rparr>"

lemma backup_path_neq: "backup_path lp t \<noteq> lp"
proof
  assume "backup_path lp t = lp"
  then have "name (backup_path lp t) = name lp" by simp
  then have "length (stem (name lp) @ ''_'' @ file_stamp t @ suffix (name lp))
               = length (stem (name lp) @ suffix (name lp))"
    by (simp add: backup_path_def stem_suffix)
  then show False by simp
qed

lemma rename_ok:
  "io_fault e (ops w) = None \<Longrightarrow> files w src = Some s \<Longrightarrow>
     rename e src dst w = (True, count_op (w\<lparr>files := (files w)(src := None, dst \<mapsto> s)\<rparr>))"
  by (simp add: rename_def)

lemma append_text_ok:
  "io_fault e (ops w) = None \<Longrightarrow>
     append_text e p s w
       = (True, count_op (w\<lparr>files := (files w)(p \<mapsto> (case files w p of None \<Rightarrow> [] | Some t \<Rightarrow> t) @ s)\<rparr>))"
  by (simp add: append_text_def)

lemma write_to_database_files [simp]: "files (write_to_database m w) = files w"
  by (simp add: write_to_database_def)

text \<open>
  Claim C8. Let the log file exist and let the file operations of the call not fail.
  When the size of the log is at or above \<open>max_log_size_kb * 1024\<close>, \<open>append_log\<close>
  leaves the old content, unchanged, at the backup path (the stem of the name, an
  underscore, the time of the rotation, the suffix of the name), the log path holds the
  new line and nothing else, and no other file changes. When the size is below the
  threshold, the log path holds the old content followed by the new line, and no other
  file changes.
\<close>

theorem append_log_rotates:
  assumes present: "files w lp = Some content"
    and first_ok: "io_fault e (ops w) = None"
  shows "(length content \<ge> max_log_size_kb cfg * 1024 \<and> io_fault e (Suc (ops w)) = None \<longrightarrow>
            files (append_log e cfg lp event ip mac w) (backup_path lp (clock e (ticks w))) = Some content
          \<and> files (append_log e cfg lp event ip mac w) lp
               = Some (log_line e (clock e (Suc (ticks w))) event ip mac)
          \<and> (\<forall>q. q \<noteq> lp \<and> q \<noteq> backup_path lp (clock e (ticks w))
                 \<longrightarrow> files (append_log e cfg lp event ip mac w) q = files w q))
       \<and> (length content < max_log_size_kb cfg * 1024 \<longrightarrow>
            files (append_log e cfg lp event ip mac w) lp
               = Some (content @ log_line e (clock e (ticks w)) event ip mac)
          \<and> (\<forall>q. q \<noteq> lp \<longrightarrow> files (append_log e cfg lp event ip mac w) q = files w q))"
proof (intro conjI impI)
  assume big: "max_log_size_kb cfg * 1024 \<le> length content \<and> io_fault e (Suc (ops w)) = None"
  define t0 where "t0 = clock e (ticks w)"
  define w1 where "w1 = snd (now e w)"
  define w2 where "w2 = count_op (w1\<lparr>files := (files w1)(lp := None, backup_path lp t0 \<mapsto> content)\<rparr>)"
  have n: "now e w = (t0, w1)" by (simp add: now_def t0_def w1_def)
  have w1: "files w1 = files w" "ops w1 = ops w" "ticks w1 = Suc (ticks w)"
    by (simp_all add: w1_def now_def)
  have r: "rotate_log_file e cfg lp w = w2"
    using present big n rename_ok[of e w1 lp content "backup_path lp t0"] first_ok w1
    by (simp add: rotate_log_file_def w2_def)
  have w2: "files w2 lp = None" "files w2 (backup_path lp t0) = Some content"
    "ops w2 = Suc (ops w)" "ticks w2 = Suc (ticks w)"
    "\<And>q. q \<noteq> lp \<Longrightarrow> q \<noteq> backup_path lp t0 \<Longrightarrow> files w2 q = files w q"
    using backup_path_neq[of lp t0] w1 by (auto simp: w2_def count_op_def)
  define t1 where "t1 = clock e (Suc (ticks w))"
  define w3 where "w3 = snd (now e w2)"
  have n2: "now e w2 = (t1, w3)" using w2 by (simp add: now_def t1_def w3_def)
  have w3: "files w3 = files w2" "ops w3 = Suc (ops w)" by (simp_all add: w3_def now_def w2)
  have a: "append_text e lp (log_line e t1 event ip mac) w3
     = (True, count_op (w3\<lparr>files := (files w3)(lp \<mapsto> log_line e t1 event ip mac)\<rparr>))"
    using append_text_ok[of e w3 lp "log_line e t1 event ip mac"] big w3 w2 by simp
  have al: "files (append_log e cfg lp event ip mac w) = (files w2)(lp \<mapsto> log_line e t1 event ip mac)"
    using r n2 a w3 by (simp add: append_log_def count_op_def)
  show "files (append_log e cfg lp event ip mac w) (backup_path lp (clock e (ticks w))) = Some content"
    using al w2 backup_path_neq[of lp t0] by (simp add: t0_def)
  show "files (append_log e cfg lp event ip mac w) lp = Some (log_line e (clock e (Suc (ticks w))) event ip mac)"
    using al by (simp add: t1_def)
  show "\<forall>q. q \<noteq> lp \<and> q \<noteq> backup_path lp (clock e (ticks w))
           \<longrightarrow> files (append_log e cfg lp event ip mac w) q = files w q"
    using al w2 by (simp add: t0_def)
next
  assume small: "length content < max_log_size_kb cfg * 1024"
  have r: "rotate_log_file e cfg lp w = w" using present small by (simp add: rotate_log_file_def)
  define t where "t = clock e (ticks w)"
  define w1 where "w1 = snd (now e w)"
  have n: "now e w = (t, w1)" by (simp add: now_def t_def w1_def)
  have w1: "files w1 = files w" "ops w1 = ops w" by (simp_all add: w1_def now_def)
  have a: "append_text e lp (log_line e t event ip mac) w1
     = (True, count_op (w1\<lparr>files := (files w1)(lp \<mapsto> content @ log_line e t event ip mac)\<rparr>))"
    using append_text_ok[of e w1 lp "log_line e t event ip mac"] first_ok w1 present by simp
  have al: "files (append_log e cfg lp event ip mac w) = (files w)(lp \<mapsto> content @ log_line e t event ip mac)"
    using r n a w1 by (simp add: append_log_def count_op_def)
  show "files (append_log e cfg lp event ip mac w) lp = Some (content @ log_line e (clock e (ticks w)) event ip mac)"
    using al by (simp add: t_def)
  show "\<forall>q. q \<noteq> lp \<longrightarrow> files (append_log e cfg lp event ip mac w) q = files w q"
    using al by simp
qed

theorem append_log_rotates_witness:
  "files (append_log example_env example_config example_log_path ''VERBUNDEN''
            (PStr ''192.168.1.9'') (PStr ''AA:BB:CC:DD:EE:FF'') full_log_world)
       (Path ''/opt/wlan'' ''wlan_connection_log_20240501_120000.txt'') = Some full_log
   \<and> files (append_log example_env example_config example_log_path ''VERBUNDEN''
            (PStr ''192.168.1.9'') (PStr ''AA:BB:CC:DD:EE:FF'') full_log_world) example_log_path
       = Some (''[2024-05-01 12:00:00] VERBUNDEN: IP=192.168.1.9 MAC=AA:BB:CC:DD:EE:FF'' @ [CHR 0x0A])
   \<and> files (append_log example_env example_config example_log_path ''VERBUNDEN''
            (PStr ''192.168.1.9'') (PStr ''AA:BB:CC:DD:EE:FF'') short_log_world) example_log_path
       = Some (''earlier entry[2024-05-01 12:00:00] VERBUNDEN: IP=192.168.1.9 MAC=AA:BB:CC:DD:EE:FF''
                @ [CHR 0x0A])"
proof -
  have f: "files full_log_world example_log_path = Some full_log"
    by (simp add: full_log_world_def)
  have s: "files short_log_world example_log_path = Some ''earlier entry''"
    by (simp add: short_log_world_def)
  have o: "io_fault example_env (ops full_log_world) = None" "io_fault example_env (ops short_log_world) = None"
    "io_fault example_env (Suc (ops full_log_world)) = None"
    by (simp_all add: example_env_def)
  have big: "length full_log \<ge> max_log_size_kb example_config * 1024"
    by (simp add: full_log_def example_config_def)
  have small: "length ''earlier entry'' < max_log_size_kb example_config * 1024"
    by (simp add: example_config_def)
  have bp: "backup_path example_log_path (clock example_env (ticks full_log_world))
              = Path ''/opt/wlan'' ''wlan_connection_log_20240501_120000.txt''"
    by (simp add: backup_path_def example_log_path_def example_env_def stem_def suffix_def)
  have l: "log_line example_env (clock example_env n) ''VERBUNDEN'' (PStr ''192.168.1.9'') (PStr ''AA:BB:CC:DD:EE:FF'')
       = ''[2024-05-01 12:00:00] VERBUNDEN: IP=192.168.1.9 MAC=AA:BB:CC:DD:EE:FF'' @ [CHR 0x0A]" for n
    by (simp add: log_line_def example_env_def fmt_def mac_str_of_def)
  from append_log_rotates[OF f o(1), of example_config "''VERBUNDEN''" "PStr ''192.168.1.9''" "PStr ''AA:BB:CC:DD:EE:FF''"]
    append_log_rotates[OF s o(2), of example_config "''VERBUNDEN''" "PStr ''192.168.1.9''" "PStr ''AA:BB:CC:DD:EE:FF''"]
    big small o(3) bp l
  show ?thesis by simp
qed

subsection \<open>Reconciliation\<close>

text \<open>
  What is read off a step: the kind of event and the IP of a call of \<^verbatim>\<open>append_log\<close>.
  \<open>enumerates\<close> says of the iteration order of sets what every Python run satisfies:
  each member of the set is visited once. \<open>all_dicts\<close> says that every value of a
  device set is a dictionary, as in a snapshot the program wrote.
\<close>

fun step_event :: "step \<Rightarrow> (string \<times> pyval) option" where
  "step_event (Call event ip mac) = Some (event, ip)"
| "step_event Raise = None"

definition enumerates :: "env \<Rightarrow> bool" where
  "enumerates e = (\<forall>xs. distinct xs \<longrightarrow> set (set_order e xs) = set xs \<and> distinct (set_order e xs))"

definition all_dicts :: "pydict \<Rightarrow> bool" where
  "all_dicts d = (\<forall>(k, v) \<in> set d. \<exists>info. v = PDict info)"

lemma set_diff_set: "set (set_diff a b) = set a - set b"
  by (auto simp: set_diff_def)

lemma set_diff_distinct: "distinct (set_diff a b)"
  by (simp add: set_diff_def)

lemma joined_ips_set:
  "enumerates e \<Longrightarrow> set (joined_ips e current prev) = fst ` set current - fst ` set prev
     \<and> distinct (joined_ips e current prev)"
  using set_diff_distinct[of "map fst current" "map fst prev"]
  by (simp add: joined_ips_def enumerates_def set_diff_set)

lemma left_ips_set:
  "enumerates e \<Longrightarrow> set (left_ips e current prev) = fst ` set prev - fst ` set current
     \<and> distinct (left_ips e current prev)"
  using set_diff_distinct[of "map fst prev" "map fst current"]
  by (simp add: left_ips_def enumerates_def set_diff_set)

lemma log_step_event:
  assumes "all_dicts d" and "ip \<in> fst ` set d"
  shows "step_event (log_step d event ip) = Some (event, ip)"
proof -
  from assms(2) obtain v where "map_of d ip = Some v"
    by (metis domD dom_map_of_conv_image_fst)
  moreover from this have "(ip, v) \<in> set d" by (rule map_of_SomeD)
  with assms(1) obtain info where "v = PDict info" by (auto simp: all_dicts_def)
  ultimately show ?thesis by (simp add: log_step_def dict_get_def)
qed

lemma map_log_step_event:
  assumes "all_dicts d" and "set ips \<subseteq> fst ` set d"
  shows "map step_event (map (log_step d event) ips) = map (\<lambda>ip. Some (event, ip)) ips"
  using assms by (induction ips) (simp_all add: log_step_event)

lemma events_sequence:
  assumes "enumerates e" and "all_dicts current" and "all_dicts prev"
  shows "map step_event (events e current prev)
           = map (\<lambda>ip. Some (''VERBUNDEN'', ip)) (joined_ips e current prev)
             @ map (\<lambda>ip. Some (''GETRENNT'', ip)) (left_ips e current prev)"
proof -
  have j: "set (joined_ips e current prev) \<subseteq> fst ` set current"
    using joined_ips_set[OF assms(1), of current prev] by auto
  have l: "set (left_ips e current prev) \<subseteq> fst ` set prev"
    using left_ips_set[OF assms(1), of current prev] by auto
  show ?thesis
    using map_log_step_event[OF assms(2) j] map_log_step_event[OF assms(3) l]
    by (simp add: events_def)
qed

lemma run_steps_no_raise:
  "Raise \<notin> set steps \<Longrightarrow> fst (run_steps e cfg steps w)"
proof (induction steps arbitrary: w)
  case Nil
  then show ?case by simp
next
  case (Cons s steps)
  then show ?case by (cases s) auto
qed

text \<open>More of the concrete environment: an environment that iterates a set in the
  reverse of the order of insertion, and device sets. In \<open>current_devices\<close> and
  \<open>previous_devices\<close> the device 192.168.1.5 has two different link addresses.\<close>

fun step_ip :: "step \<Rightarrow> string" where
  "step_ip (Call event (PStr ip) mac) = ip"
| "step_ip s = []"

definition reversing_env :: env where
  "reversing_env = example_env\<lparr>set_order := rev\<rparr>"

definition two_devices :: pydict where
  "two_devices =
     [(PStr ''10.0.0.1'', device ''00:11:22:33:44:01'' ''2024-05-01T12:00:00''),
      (PStr ''10.0.0.2'', device ''00:11:22:33:44:02'' ''2024-05-01T12:00:00'')]"

definition current_devices :: pydict where
  "current_devices =
     [(PStr ''192.168.1.5'', device ''00:11:22:33:44:AA'' ''2024-05-01T12:00:00''),
      (PStr ''192.168.1.9'', device ''00:11:22:33:44:09'' ''2024-05-01T12:00:00'')]"

definition previous_devices :: pydict where
  "previous_devices =
     [(PStr ''192.168.1.5'', device ''00:11:22:33:44:BB'' ''2024-05-01T11:59:50''),
      (PStr ''192.168.1.7'', device ''00:11:22:33:44:07'' ''2024-05-01T11:59:50'')]"

lemma enumerates_example: "enumerates example_env"
  by (simp add: enumerates_def example_env_def)

lemma enumerates_reversing: "enumerates reversing_env"
  by (simp add: enumerates_def reversing_env_def)

text \<open>
  Claim C1. Let the set iteration visit each member once, let the previous snapshot be a
  dictionary whose \<open>devices\<close> entry is a dictionary, and let the values of both device
  sets be dictionaries. Then the reconciliation raises nothing and runs the steps of
  \<open>events\<close>; among them there is a \<open>VERBUNDEN\<close> call for an IP exactly when the IP is
  a key of the current set and not of the previous one, a \<open>GETRENNT\<close> call exactly when
  it is a key of the previous set and not of the current one, no call of any kind for an
  IP that is a key of both (whatever the link addresses are), and no call twice.
\<close>

theorem reconcile_classifies:
  assumes order: "enumerates e"
    and snap: "previous = PDict snap"
    and prev: "dict_get snap (PStr ''devices'') (PDict []) = PDict prev_devices"
    and cur_dicts: "all_dicts current" and prev_dicts: "all_dicts prev_devices"
  shows "fst (reconcile e cfg current previous w)
       \<and> reconcile e cfg current previous w = run_steps e cfg (events e current prev_devices) w
       \<and> (\<forall>ip. Some (''VERBUNDEN'', ip) \<in> step_event ` set (events e current prev_devices)
                \<longleftrightarrow> ip \<in> fst ` set current \<and> ip \<notin> fst ` set prev_devices)
       \<and> (\<forall>ip. Some (''GETRENNT'', ip) \<in> step_event ` set (events e current prev_devices)
                \<longleftrightarrow> ip \<in> fst ` set prev_devices \<and> ip \<notin> fst ` set current)
       \<and> (\<forall>ip event. ip \<in> fst ` set current \<and> ip \<in> fst ` set prev_devices
                \<longrightarrow> Some (event, ip) \<notin> step_event ` set (events e current prev_devices))
       \<and> distinct (map step_event (events e current prev_devices))"
proof -
  let ?ev = "events e current prev_devices"
  let ?J = "joined_ips e current prev_devices" and ?L = "left_ips e current prev_devices"
  have seq: "map step_event ?ev = map (\<lambda>ip. Some (''VERBUNDEN'', ip)) ?J @ map (\<lambda>ip. Some (''GETRENNT'', ip)) ?L"
    by (rule events_sequence[OF order cur_dicts prev_dicts])
  have J: "set ?J = fst ` set current - fst ` set prev_devices" "distinct ?J"
    using joined_ips_set[OF order, of current prev_devices] by simp_all
  have L: "set ?L = fst ` set prev_devices - fst ` set current" "distinct ?L"
    using left_ips_set[OF order, of current prev_devices] by simp_all
  have img: "step_event ` set ?ev = (\<lambda>ip. Some (''VERBUNDEN'', ip)) ` set ?J \<union> (\<lambda>ip. Some (''GETRENNT'', ip)) ` set ?L"
    using arg_cong[OF seq, of set] by (simp add: image_Un)
  have noraise: "Raise \<notin> set ?ev"
  proof
    assume "Raise \<in> set ?ev"
    then have "None \<in> step_event ` set ?ev" by force
    with img show False by auto
  qed
  have 1: "fst (reconcile e cfg current previous w)"
    and 2: "reconcile e cfg current previous w = run_steps e cfg ?ev w"
    using run_steps_no_raise[OF noraise, of e cfg w] snap prev by (simp_all add: reconcile_def)
  have 3: "\<forall>ip. Some (''VERBUNDEN'', ip) \<in> step_event ` set ?ev
                \<longleftrightarrow> ip \<in> fst ` set current \<and> ip \<notin> fst ` set prev_devices"
    unfolding img using J(1) by auto
  have 4: "\<forall>ip. Some (''GETRENNT'', ip) \<in> step_event ` set ?ev
                \<longleftrightarrow> ip \<in> fst ` set prev_devices \<and> ip \<notin> fst ` set current"
    unfolding img using L(1) by auto
  have 5: "\<forall>ip event. ip \<in> fst ` set current \<and> ip \<in> fst ` set prev_devices
                \<longrightarrow> Some (event, ip) \<notin> step_event ` set ?ev"
  proof (intro allI impI)
    fix ip event
    assume "ip \<in> fst ` set current \<and> ip \<in> fst ` set prev_devices"
    then have "ip \<notin> set ?J" "ip \<notin> set ?L" using J(1) L(1) by simp_all
    then show "Some (event, ip) \<notin> step_event ` set ?ev" unfolding img by auto
  qed
  have 6: "distinct (map step_event ?ev)"
    unfolding seq using J(2) L(2) by (auto simp: distinct_map inj_on_def)
  from 1 2 3 4 5 6 show ?thesis by blast
qed

theorem reconcile_classifies_witness:
  "enumerates example_env \<and> all_dicts current_devices \<and> all_dicts previous_devices
   \<and> fst (reconcile example_env example_config current_devices
            (snapshot (PDict previous_devices) (clock example_env 0)) example_world)
   \<and> map step_event (events example_env current_devices previous_devices)
       = [Some (''VERBUNDEN'', PStr ''192.168.1.9''), Some (''GETRENNT'', PStr ''192.168.1.7'')]"
proof -
  have 1: "all_dicts current_devices" by (simp add: all_dicts_def current_devices_def device_def)
  have 2: "all_dicts previous_devices" by (simp add: all_dicts_def previous_devices_def device_def)
  have 3: "snapshot (PDict previous_devices) (clock example_env 0)
             = PDict [(PStr ''devices'', PDict previous_devices), (PStr ''last_scan'', PStr (iso (clock example_env 0)))]"
    by (simp add: snapshot_def)
  have 4: "dict_get [(PStr ''devices'', PDict previous_devices), (PStr ''last_scan'', PStr (iso (clock example_env 0)))]
              (PStr ''devices'') (PDict []) = PDict previous_devices"
    by (simp add: dict_get_def)
  have 5: "map step_event (events example_env current_devices previous_devices)
       = [Some (''VERBUNDEN'', PStr ''192.168.1.9''), Some (''GETRENNT'', PStr ''192.168.1.7'')]"
    by (simp add: events_def joined_ips_def left_ips_def set_diff_def example_env_def
      current_devices_def previous_devices_def log_step_def dict_get_def device_def)
  from reconcile_classifies[OF enumerates_example 3 4 1 2, of example_config example_world]
  have "fst (reconcile example_env example_config current_devices
            (snapshot (PDict previous_devices) (clock example_env 0)) example_world)"
    by (rule conjunct1)
  with enumerates_example 1 2 5 show ?thesis by blast
qed

text \<open>
  Claim C4, as the code has it. The calls of one cycle are the \<open>VERBUNDEN\<close> calls
  followed by the \<open>GETRENNT\<close> calls; in each group there is one call for each IP of the
  set difference, in the order in which the set is iterated.
\<close>

theorem events_in_set_order:
  assumes "enumerates e" and "all_dicts current" and "all_dicts prev_devices"
  shows "map step_event (events e current prev_devices)
           = map (\<lambda>ip. Some (''VERBUNDEN'', ip))
               (set_order e (set_diff (map fst current) (map fst prev_devices)))
             @ map (\<lambda>ip. Some (''GETRENNT'', ip))
               (set_order e (set_diff (map fst prev_devices) (map fst current)))
       \<and> distinct (set_order e (set_diff (map fst current) (map fst prev_devices)))
       \<and> set (set_order e (set_diff (map fst current) (map fst prev_devices)))
            = fst ` set current - fst ` set prev_devices
       \<and> distinct (set_order e (set_diff (map fst prev_devices) (map fst current)))
       \<and> set (set_order e (set_diff (map fst prev_devices) (map fst current)))
            = fst ` set prev_devices - fst ` set current"
  using events_sequence[OF assms] joined_ips_set[OF assms(1), of current prev_devices]
    left_ips_set[OF assms(1), of current prev_devices]
  by (simp add: joined_ips_def left_ips_def)

theorem events_in_set_order_witness:
  "enumerates reversing_env \<and> all_dicts two_devices \<and> all_dicts []
   \<and> map step_event (events reversing_env two_devices [])
       = [Some (''VERBUNDEN'', PStr ''10.0.0.2''), Some (''VERBUNDEN'', PStr ''10.0.0.1'')]"
proof -
  have 1: "all_dicts two_devices" by (simp add: all_dicts_def two_devices_def device_def)
  have 2: "all_dicts []" by (simp add: all_dicts_def)
  from events_in_set_order[OF enumerates_reversing 1 2] enumerates_reversing 1 2
  show ?thesis by (simp add: reversing_env_def two_devices_def set_diff_def)
qed

text \<open>
  Claim C4 as stated fails: nothing in the loop sorts. With a set iteration that visits
  10.0.0.2 before 10.0.0.1, the \<open>VERBUNDEN\<close> calls, and likewise the \<open>GETRENNT\<close> calls,
  are not in the order of the IPs.
\<close>

theorem events_not_sorted_counterexample:
  "\<not> sorted (map step_ip (events reversing_env two_devices []))
   \<and> \<not> sorted (map step_ip (events reversing_env [] two_devices))"
  by (simp add: events_def joined_ips_def left_ips_def set_diff_def reversing_env_def
      two_devices_def log_step_def dict_get_def device_def)

subsection \<open>The loop: consecutive failures and the warning\<close>

text \<open>Nothing before the test of \<^verbatim>\<open>save_state\<close> hands a warning to the database.\<close>

lemma count_op_sink [simp]: "sink (count_op w) = sink w"
  by (simp add: count_op_def)

lemma read_text_sink [simp]: "sink (snd (read_text e p w)) = sink w"
  by (simp add: read_text_def split: option.splits)

lemma write_text_sink [simp]: "sink (snd (write_text e p s w)) = sink w"
  by (simp add: write_text_def split: option.splits fault.splits)

lemma append_text_sink [simp]: "sink (snd (append_text e p s w)) = sink w"
  by (simp add: append_text_def Let_def split: option.splits fault.splits)

lemma rename_sink [simp]: "sink (snd (rename e src dst w)) = sink w"
  by (simp add: rename_def split: option.splits)

lemma scan_entries_sink [simp]: "sink (snd (scan_entries e es acc w)) = sink w"
proof (induction es arbitrary: acc w)
  case Nil
  then show ?case by simp
next
  case (Cons a es)
  obtain ip mac where "a = (ip, mac)" by (cases a)
  with Cons show ?case by (simp add: Let_def case_prod_beta)
qed

lemma discover_devices_sink [simp]: "sink (snd (discover_devices e w)) = sink w"
  by (simp add: discover_devices_def scan_arp_table_def split: option.splits)

lemma migrate_sink [simp]: "sink (snd (migrate e ds acc w)) = sink w"
proof (induction ds arbitrary: acc w)
  case Nil
  then show ?case by simp
next
  case (Cons a ds)
  obtain mac info where a: "a = (mac, info)" by (cases a)
  show ?case
  proof (cases info)
    case (PDict flds)
    with a Cons show ?thesis by (simp add: Let_def case_prod_beta)
  qed (simp_all add: a)
qed

lemma load_data_sink [simp]: "sink (snd (load_data e data w)) = sink w"
proof (cases "py_contains ''devices'' data")
  case None
  then show ?thesis by (simp add: load_data_def)
next
  case (Some b)
  show ?thesis
  proof (cases b)
    case False
    with Some show ?thesis by (simp add: load_data_def)
  next
    case True
    show ?thesis
    proof (cases "py_subscript data ''devices''")
      case None
      with Some True show ?thesis by (simp add: load_data_def)
    next
      case (Some devices)
      note dv = Some
      show ?thesis
      proof (cases "truthy devices")
        case False
        with \<open>py_contains ''devices'' data = Some b\<close> True dv show ?thesis
          by (simp add: load_data_def)
      next
        case tr: True
        show ?thesis
        proof (cases devices)
          case (PDict ds)
          show ?thesis
          proof (cases "legacy_shape ds")
            case False
            with \<open>py_contains ''devices'' data = Some b\<close> True dv tr PDict show ?thesis
              by (simp add: load_data_def)
          next
            case ls: True
            obtain r w1 where m: "migrate e ds [] w = (r, w1)" by (cases "migrate e ds [] w")
            have w1: "sink w1 = sink w" using migrate_sink[of e ds "[]" w] m by simp
            show ?thesis
              using \<open>py_contains ''devices'' data = Some b\<close> True dv tr PDict ls m w1
              by (cases r; cases data) (simp_all add: load_data_def)
          qed
        qed (use \<open>py_contains ''devices'' data = Some b\<close> True dv tr in \<open>simp_all add: load_data_def\<close>)
      qed
    qed
  qed
qed

lemma load_state_sink [simp]: "sink (snd (load_state e p w)) = sink w"
proof (cases "files w p")
  case None
  then show ?thesis by (simp add: load_state_def)
next
  case (Some content)
  obtain r w1 where rd: "read_text e p w = (r, w1)" by (cases "read_text e p w")
  have w1: "sink w1 = sink w" using read_text_sink[of e p w] rd by simp
  show ?thesis
  proof (cases r)
    case None
    with Some rd w1 show ?thesis by (simp add: load_state_def)
  next
    case (Some body)
    with \<open>files w p = Some content\<close> rd w1 show ?thesis
      by (cases "json_load e body") (simp_all add: load_state_def)
  qed
qed

lemma save_state_sink [simp]: "sink (snd (save_state e p devices w)) = sink w"
  by (simp add: save_state_def Let_def case_prod_beta split: option.splits)

lemma rotate_log_file_sink [simp]: "sink (rotate_log_file e cfg lp w) = sink w"
  by (simp add: rotate_log_file_def Let_def case_prod_beta split: option.splits)

lemma db_message_no_warning: "\<not> startswith (db_message e t event ip mac) ''Warnung:''"
  by (simp add: db_message_def Let_def)

lemma append_log_warnings [simp]: "warnings (append_log e cfg lp event ip mac w) = warnings w"
  by (simp add: append_log_def Let_def case_prod_beta warnings_def write_to_database_def
      db_message_no_warning)

lemma run_steps_warnings [simp]: "warnings (snd (run_steps e cfg steps w)) = warnings w"
proof (induction steps arbitrary: w)
  case Nil
  then show ?case by simp
next
  case (Cons s steps)
  then show ?case by (cases s) simp_all
qed

lemma reconcile_warnings [simp]: "warnings (snd (reconcile e cfg current previous w)) = warnings w"
  by (simp add: reconcile_def split: pyval.splits)

lemma discover_devices_warnings [simp]: "warnings (snd (discover_devices e w)) = warnings w"
  by (simp add: warnings_def)

lemma load_state_warnings [simp]: "warnings (snd (load_state e p w)) = warnings w"
  by (simp add: warnings_def)

lemma save_state_warnings [simp]: "warnings (snd (save_state e p devices w)) = warnings w"
  by (simp add: warnings_def)


lemma now_warnings [simp]: "warnings (snd (now e w)) = warnings w"
  by (simp add: warnings_def now_def)








text \<open>
  More of the concrete environment: an environment in which every file operation is
  refused and \<^verbatim>\<open>arp -a\<close> raises, the configuration with a given scan interval, and the
  variables of the loop as they are when it is entered at noon.
\<close>

definition refusing_env :: env where
  "refusing_env = example_env\<lparr>io_fault := (\<lambda>n. Some Refused), arp_output := (\<lambda>n. None)\<rparr>"


definition start_state :: loop_state where
  "start_state = \<lparr>scan_count = 0, consecutive_errors = 0, last_heartbeat_hour = 12\<rparr>"

definition start_world :: world where
  "start_world =
     \<lparr>files = (\<lambda>p. None), sink = [''gestartet [2024-05-01 12:00:00]''], ticks = 2, ops = 0\<rparr>"

lemma startup_refusing: "startup refusing_env example_world = (start_state, start_world)"
  by (simp add: startup_def now_def write_to_database_def refusing_env_def example_env_def
      example_world_def start_state_def start_world_def)







lemma warning_message_warns:
  "warnings (w\<lparr>sink := s @ [warning_message t]\<rparr>) = Suc (warnings (w\<lparr>sink := s\<rparr>))"
  by (simp add: warnings_def warning_message_def)




end
